theory Spec2Isabelle
  imports Main "HOL-Library.Word" "HOL-Library.Char_ord" "HOL-Library.List_Lexorder"
    "HOL-Library.Multiset"
begin


section \<open>koda-js: the host binding, the backend loader and the decode worker\<close>

text \<open>
  The development follows four source files: \<^verbatim>\<open>native/binding.cc\<close> (the N-API glue
  between host values and the C++ \<^verbatim>\<open>koda::Value\<close>), \<^verbatim>\<open>src/native.ts\<close> (the memoized
  addon loader), \<^verbatim>\<open>src/index.ts\<close> (the public entry points, which dispatch to the addon
  or to the JavaScript fallback) and \<^verbatim>\<open>src/worker/decoder-worker.ts\<close>.
  The C++ codec (\<^verbatim>\<open>koda_binary.cc\<close>, \<^verbatim>\<open>koda_parse.cc\<close>) and the JavaScript fallback modules
  are not among the sources. The binding and the entry points take them as parameters;
  a byte-level codec written after sections 4.3 and 4.4 of the specification is given
  separately and is used wherever concrete bytes are computed.
\<close>

subsection \<open>Machine numbers\<close>

type_synonym byte = "8 word"

text \<open>\<^verbatim>\<open>int64_t\<close>: a 64-bit word, read as a signed number with \<^term>\<open>sint\<close>.\<close>

type_synonym int64 = "64 word"

text \<open>
  \<^verbatim>\<open>double\<close>: the IEEE-754 binary64 bit pattern. Bit 63 is the sign, bits 62..52 the
  biased exponent, bits 51..0 the fraction.
\<close>

type_synonym double = "64 word"

definition dbl_sign :: "double \<Rightarrow> bool" where
  "dbl_sign d = (2 ^ 63 \<le> unat d)"

definition dbl_expo :: "double \<Rightarrow> nat" where
  "dbl_expo d = unat d div 2 ^ 52 mod 2048"

definition dbl_mant :: "double \<Rightarrow> nat" where
  "dbl_mant d = unat d mod 2 ^ 52"

definition dbl_mag :: "double \<Rightarrow> nat" where
  "dbl_mag d = unat d mod 2 ^ 63"

definition mk_double :: "bool \<Rightarrow> nat \<Rightarrow> nat \<Rightarrow> double" where
  "mk_double s e m = of_nat ((if s then 2 ^ 63 else 0) + e * 2 ^ 52 + m)"

definition isnan :: "double \<Rightarrow> bool" where
  "isnan d = (dbl_expo d = 2047 \<and> dbl_mant d \<noteq> 0)"

text \<open>
  Comparison of doubles. Away from NaN the order of two doubles is the order of their
  sign-and-magnitude readings, and the two zeros read as the same number; every
  comparison with a NaN is false.
\<close>

definition dbl_key :: "double \<Rightarrow> int" where
  "dbl_key d = (if dbl_sign d then - int (dbl_mag d) else int (dbl_mag d))"

definition double_le :: "double \<Rightarrow> double \<Rightarrow> bool" where
  "double_le a b = (\<not> isnan a \<and> \<not> isnan b \<and> dbl_key a \<le> dbl_key b)"

definition double_eq :: "double \<Rightarrow> double \<Rightarrow> bool" where
  "double_eq a b = (\<not> isnan a \<and> \<not> isnan b \<and> dbl_key a = dbl_key b)"

text \<open>The literals \<^verbatim>\<open>9007199254740992.0\<close> and \<^verbatim>\<open>-9007199254740992.0\<close> of \<^verbatim>\<open>NapiToValue\<close>.\<close>

definition dbl_2p53 :: double where
  "dbl_2p53 = 0x4340000000000000"

definition dbl_neg_2p53 :: double where
  "dbl_neg_2p53 = 0xC340000000000000"

text \<open>
  \<^verbatim>\<open>static_cast<double>(int64_t)\<close>: the nearest double, ties to even. \<open>bitlen n\<close> is the
  number of binary digits of \<open>n\<close>; \<open>round_to_53 n\<close> is the 53-bit significand and the
  exponent of the double nearest to \<open>n\<close>.
\<close>

fun bitlen :: "nat \<Rightarrow> nat" where
  "bitlen n = (if n = 0 then 0 else Suc (bitlen (n div 2)))"

declare bitlen.simps [simp del]

definition round_to_53 :: "nat \<Rightarrow> nat \<times> nat" where
  "round_to_53 n =
     (let e = bitlen n - 1 in
      if e \<le> 52 then (n * 2 ^ (52 - e), e)
      else
        let sh = e - 52; q = n div 2 ^ sh; r = n mod 2 ^ sh; half = 2 ^ (sh - 1);
            q' = (if half < r \<or> (r = half \<and> odd q) then q + 1 else q)
        in if q' = 2 ^ 53 then (2 ^ 52, e + 1) else (q', e))"

definition double_of_int64 :: "int64 \<Rightarrow> double" where
  "double_of_int64 i =
     (let v = sint i; n = nat \<bar>v\<bar> in
      if n = 0 then 0
      else let (q, e) = round_to_53 n in mk_double (v < 0) (e + 1023) (q - 2 ^ 52))"

text \<open>
  \<^verbatim>\<open>static_cast<int64_t>(double)\<close>: truncation towards zero. The source performs the cast
  only behind the range check \<open>-2^53 \<le> d \<le> 2^53\<close>, where the result fits.
\<close>

definition double_trunc_mag :: "double \<Rightarrow> nat" where
  "double_trunc_mag d =
     (let e = dbl_expo d; m = dbl_mant d in
      if e < 1023 then 0
      else if e < 1075 then (2 ^ 52 + m) div 2 ^ (1075 - e)
      else (2 ^ 52 + m) * 2 ^ (e - 1075))"

definition int64_of_double :: "double \<Rightarrow> int64" where
  "int64_of_double d =
     (let t = int (double_trunc_mag d) in word_of_int (if dbl_sign d then - t else t))"

subsection \<open>Values: the C++ variant and the host value\<close>

text \<open>
  \<^verbatim>\<open>koda::Value\<close> with its seven \<^verbatim>\<open>Value::Type\<close> cases. A \<^verbatim>\<open>std::string\<close> is its sequence of
  bytes; an object is the vector of pairs \<^verbatim>\<open>v.obj\<close>, in insertion order.
\<close>

datatype Value =
    VNull
  | VBool bool
  | VInt int64
  | VFloat double
  | VString string
  | VArray "Value list"
  | VObject "(string \<times> Value) list"

text \<open>
  The host (JavaScript) value as the binding sees it through N-API. A number is a double;
  the host has one NaN, \<open>host_nan\<close>. A string is held as the UTF-8 bytes that
  \<^verbatim>\<open>Utf8Value()\<close> returns. An object is the list of its own enumerable string-keyed
  properties in the order the host lists them, which is what \<^verbatim>\<open>GetPropertyNames()\<close> and
  \<^verbatim>\<open>Get\<close> show of an object that inherits no enumerable property; \<open>JObject\<close> stands for
  everything on which \<^verbatim>\<open>IsObject()\<close> holds and \<^verbatim>\<open>IsArray()\<close> does not, functions included.
  \<open>JOther\<close> stands for the remaining host values (symbols, bigints, externals).
\<close>

definition host_nan :: double where
  "host_nan = 0x7FF8000000000000"

datatype napi =
    JNull
  | JUndefined
  | JBoolean bool
  | JNumber double
  | JString string
  | JArray "napi list"
  | JObject "(string \<times> napi) list"
  | JOther

text \<open>
  The order in which the host lists the own properties of an object: first the keys that
  are array indices (the decimal numerals, without leading zero, of the integers from 0
  to \<open>2^32 - 2\<close>) in ascending numeric order, then the other keys in the order in which
  they were created.
\<close>

definition is_digit :: "char \<Rightarrow> bool" where
  "is_digit c = (48 \<le> (of_char c :: nat) \<and> (of_char c :: nat) \<le> 57)"

definition index_value :: "string \<Rightarrow> nat" where
  "index_value k = foldl (\<lambda>n c. n * 10 + (of_char c - 48)) 0 k"

definition is_array_index :: "string \<Rightarrow> bool" where
  "is_array_index k =
     (k \<noteq> [] \<and> list_all is_digit k \<and> (length k = 1 \<or> hd k \<noteq> CHR ''0'') \<and>
      index_value k < 2 ^ 32 - 1)"

fun js_replace :: "(string \<times> 'a) list \<Rightarrow> string \<Rightarrow> 'a \<Rightarrow> (string \<times> 'a) list" where
  "js_replace [] k v = []"
| "js_replace ((k', v') # ps) k v =
     (if k' = k then (k', v) # ps else (k', v') # js_replace ps k v)"

fun js_insert_index :: "(string \<times> 'a) list \<Rightarrow> string \<Rightarrow> 'a \<Rightarrow> (string \<times> 'a) list" where
  "js_insert_index [] k v = [(k, v)]"
| "js_insert_index ((k', v') # ps) k v =
     (if is_array_index k' \<and> index_value k' < index_value k
      then (k', v') # js_insert_index ps k v
      else (k, v) # (k', v') # ps)"

text \<open>
  \<^verbatim>\<open>obj.Set(key, v)\<close> on an object made by \<^verbatim>\<open>Napi::Object::New\<close>: an ordinary property
  assignment. For the key \<^verbatim>\<open>__proto__\<close> it reaches the accessor that the object inherits
  from \<^verbatim>\<open>Object.prototype\<close>, and no own property is created (the accessor may install
  \<open>v\<close> as the prototype, which the list of own properties does not show). For every
  other key it replaces the value of the property when the key exists, and creates the
  property otherwise, at the place the host's order gives it.
\<close>

definition js_set :: "(string \<times> 'a) list \<Rightarrow> string \<Rightarrow> 'a \<Rightarrow> (string \<times> 'a) list" where
  "js_set obj k v =
     (if k = ''__proto__'' then obj
      else if k \<in> fst ` set obj then js_replace obj k v
      else if is_array_index k then js_insert_index obj k v
      else obj @ [(k, v)])"

definition js_object_of :: "(string \<times> 'a) list \<Rightarrow> (string \<times> 'a) list" where
  "js_object_of ps = foldl (\<lambda>obj (k, v). js_set obj k v) [] ps"

text \<open>
  \<^verbatim>\<open>ValueToNapi\<close>, binding.cc lines 73-99. \<^verbatim>\<open>Napi::Number::New\<close> of a NaN is the host's
  NaN. \<^verbatim>\<open>Napi::String::New\<close> reads the bytes of a \<^verbatim>\<open>std::string\<close> as UTF-8 and
  \<^verbatim>\<open>Utf8Value()\<close> writes them back: bytes that are well-formed UTF-8 are carried as they
  are, and the strings of a Value are taken to be such (the core's parser and decoder
  validate them). \<^verbatim>\<open>obj.Set\<close> and \<^verbatim>\<open>obj.Get\<close> receive the key as a C string, which
  is the whole key when it holds no NUL character; keys are taken to be such.
\<close>

fun ValueToNapi :: "Value \<Rightarrow> napi" where
  "ValueToNapi VNull = JNull"
| "ValueToNapi (VBool b) = JBoolean b"
| "ValueToNapi (VInt i) = JNumber (double_of_int64 i)"
| "ValueToNapi (VFloat d) = JNumber (if isnan d then host_nan else d)"
| "ValueToNapi (VString s) = JString s"
| "ValueToNapi (VArray arr) = JArray (map ValueToNapi arr)"
| "ValueToNapi (VObject obj) = JObject (js_object_of (map (\<lambda>(k, v). (k, ValueToNapi v)) obj))"

text \<open>\<^verbatim>\<open>NapiToValue\<close>, binding.cc lines 101-135.\<close>

fun NapiToValue :: "napi \<Rightarrow> Value" where
  "NapiToValue JNull = VNull"
| "NapiToValue JUndefined = VNull"
| "NapiToValue (JBoolean b) = VBool b"
| "NapiToValue (JNumber d) =
     (if double_le dbl_neg_2p53 d \<and> double_le d dbl_2p53 then
        (let i = int64_of_double d in
         if double_eq (double_of_int64 i) d then VInt i else VFloat d)
      else VFloat d)"
| "NapiToValue (JString s) = VString s"
| "NapiToValue (JArray arr) = VArray (map NapiToValue arr)"
| "NapiToValue (JObject props) = VObject (map (\<lambda>(k, v). (k, NapiToValue v)) props)"
| "NapiToValue JOther = VNull"

subsection \<open>Errors\<close>

text \<open>
  A C++ exception of the core as the binding catches it (\<^verbatim>\<open>const std::exception& e\<close>):
  the binding reads \<^verbatim>\<open>e.what()\<close> only. \<open>at_byte\<close> is the byte offset, where the
  core knows one.
\<close>

record KodaException =
  what :: string
  at_byte :: "nat option"

text \<open>
  What a JavaScript \<^verbatim>\<open>catch\<close> receives: an Error object with its class, its message and
  (for the library's own decode errors) a byte offset; or \<^verbatim>\<open>null\<close>; or \<^verbatim>\<open>undefined\<close>; or another
  value that is not an Error, held as its \<^verbatim>\<open>String(err)\<close> rendering together with what
  reading its \<^verbatim>\<open>message\<close> property gives (\<open>None\<close>: \<^verbatim>\<open>undefined\<close>).
\<close>

datatype ErrorClass = PlainError | TypeError | KodaParseError | KodaEncodeError | KodaDecodeError

record JsError =
  err_class :: ErrorClass
  message :: string
  byteOffset :: "nat option"

datatype thrown = Thrown JsError | ThrownNull | ThrownUndefined | NonError string "string option"

text \<open>
  \<^verbatim>\<open>(e as Error).message\<close>: the cast is erased, so this is a property read. On \<^verbatim>\<open>null\<close> and
  \<^verbatim>\<open>undefined\<close> the read itself throws a \<^verbatim>\<open>TypeError\<close> (\<open>Inl\<close>); on every other value it
  yields the property, \<open>None\<close> when it is \<^verbatim>\<open>undefined\<close>.
\<close>

definition property_read_error :: "string \<Rightarrow> thrown" where
  "property_read_error of_what =
     Thrown \<lparr>err_class = TypeError,
             message = ''Cannot read properties of '' @ of_what @ '' (reading 'message')'',
             byteOffset = None\<rparr>"

fun message_of :: "thrown \<Rightarrow> thrown + string option" where
  "message_of (Thrown e) = Inr (Some (message e))"
| "message_of ThrownNull = Inl (property_read_error ''null'')"
| "message_of ThrownUndefined = Inl (property_read_error ''undefined'')"
| "message_of (NonError s m) = Inr m"

text \<open>\<^verbatim>\<open>err instanceof Error ? err.message : String(err)\<close>.\<close>

fun message_or_string :: "thrown \<Rightarrow> string" where
  "message_or_string (Thrown e) = message e"
| "message_or_string ThrownNull = ''null''"
| "message_or_string ThrownUndefined = ''undefined''"
| "message_or_string (NonError s m) = s"

fun instanceof :: "thrown \<Rightarrow> ErrorClass \<Rightarrow> bool" where
  "instanceof (Thrown e) c = (err_class e = c)"
| "instanceof e c = False"

text \<open>\<^verbatim>\<open>new KodaDecodeError(msg)\<close> and \<^verbatim>\<open>new KodaParseError(msg)\<close>: one argument, the message.\<close>

definition new_KodaDecodeError :: "string \<Rightarrow> thrown" where
  "new_KodaDecodeError msg =
     Thrown \<lparr>err_class = KodaDecodeError, message = msg, byteOffset = None\<rparr>"

definition new_KodaParseError :: "string \<Rightarrow> thrown" where
  "new_KodaParseError msg =
     Thrown \<lparr>err_class = KodaParseError, message = msg, byteOffset = None\<rparr>"

text \<open>\<^verbatim>\<open>Napi::Error::New(env, e.what()).ThrowAsJavaScriptException()\<close>.\<close>

definition napi_error :: "KodaException \<Rightarrow> thrown" where
  "napi_error e = Thrown \<lparr>err_class = PlainError, message = what e, byteOffset = None\<rparr>"

subsection \<open>The native entry points of binding.cc\<close>

text \<open>
  A size option of the options object: the default stays unless the property is a
  number, which is read with \<^verbatim>\<open>Uint32Value()\<close>.
\<close>

definition uint32_value :: "nat \<Rightarrow> nat" where
  "uint32_value n = n mod 2 ^ 32"

definition size_option :: "nat \<Rightarrow> nat option \<Rightarrow> nat" where
  "size_option dflt opt = (case opt of None \<Rightarrow> dflt | Some n \<Rightarrow> uint32_value n)"

text \<open>
  The C++ core, \<^verbatim>\<open>koda::parse\<close>, \<^verbatim>\<open>koda::stringify\<close>, \<^verbatim>\<open>koda::encode\<close> and \<^verbatim>\<open>koda::decode\<close>,
  enters each native function as its first argument.
\<close>

record KodaCore =
  core_parse :: "string \<Rightarrow> nat \<Rightarrow> KodaException + Value"
  core_stringify :: "Value \<Rightarrow> KodaException + string"
  core_encode :: "Value \<Rightarrow> nat \<Rightarrow> KodaException + byte list"
  core_decode :: "byte list \<Rightarrow> nat \<Rightarrow> nat \<Rightarrow> nat \<Rightarrow> KodaException + Value"

definition NativeParse ::
  "(string \<Rightarrow> nat \<Rightarrow> KodaException + Value) \<Rightarrow> string \<Rightarrow> nat option \<Rightarrow> thrown + napi" where
  "NativeParse prs text maxDepth =
     (let max_depth = size_option 256 maxDepth in
      case prs text max_depth of
        Inl e \<Rightarrow> Inl (napi_error e)
      | Inr v \<Rightarrow> Inr (ValueToNapi v))"

definition NativeStringify ::
  "(Value \<Rightarrow> KodaException + string) \<Rightarrow> napi \<Rightarrow> thrown + string" where
  "NativeStringify str v =
     (case str (NapiToValue v) of
        Inl e \<Rightarrow> Inl (napi_error e)
      | Inr s \<Rightarrow> Inr s)"

definition NativeEncode ::
  "(Value \<Rightarrow> nat \<Rightarrow> KodaException + byte list) \<Rightarrow> napi \<Rightarrow> nat option \<Rightarrow> thrown + byte list" where
  "NativeEncode enc v maxDepth =
     (let max_depth = size_option 256 maxDepth in
      case enc (NapiToValue v) max_depth of
        Inl e \<Rightarrow> Inl (napi_error e)
      | Inr buf \<Rightarrow> Inr buf)"

definition NativeDecode ::
  "(byte list \<Rightarrow> nat \<Rightarrow> nat \<Rightarrow> nat \<Rightarrow> KodaException + Value) \<Rightarrow>
   byte list \<Rightarrow> nat option \<Rightarrow> nat option \<Rightarrow> nat option \<Rightarrow> thrown + napi" where
  "NativeDecode dec buf maxDepth maxDictionarySize maxStringLength =
     (let max_depth = size_option 256 maxDepth;
          max_dict = size_option 65536 maxDictionarySize;
          max_str = size_option 1000000 maxStringLength in
      case dec buf max_depth max_dict max_str of
        Inl e \<Rightarrow> Inl (napi_error e)
      | Inr v \<Rightarrow> Inr (ValueToNapi v))"

subsection \<open>native.ts: the memoized loader\<close>

record NativeBinding =
  nb_parse :: "string \<Rightarrow> nat option \<Rightarrow> thrown + napi"
  nb_stringify :: "napi \<Rightarrow> thrown + string"
  nb_encode :: "napi \<Rightarrow> nat option \<Rightarrow> thrown + byte list"
  nb_decode :: "byte list \<Rightarrow> nat option \<Rightarrow> nat option \<Rightarrow> nat option \<Rightarrow> thrown + napi"

text \<open>
  What \<^verbatim>\<open>req(addonPath)\<close> returns: an object whose four properties may or may not be
  functions (\<open>None\<close>: \<^verbatim>\<open>typeof\<close> is not \<^verbatim>\<open>'function'\<close>).
\<close>

record AddonExports =
  exp_parse :: "(string \<Rightarrow> nat option \<Rightarrow> thrown + napi) option"
  exp_stringify :: "(napi \<Rightarrow> thrown + string) option"
  exp_encode :: "(napi \<Rightarrow> nat option \<Rightarrow> thrown + byte list) option"
  exp_decode ::
    "(byte list \<Rightarrow> nat option \<Rightarrow> nat option \<Rightarrow> nat option \<Rightarrow> thrown + napi) option"

text \<open>\<^verbatim>\<open>Init\<close> of binding.cc: the exports of the addon built from this repository.\<close>

definition Init :: "KodaCore \<Rightarrow> AddonExports" where
  "Init core =
     \<lparr>exp_parse = Some (NativeParse (core_parse core)),
      exp_stringify = Some (NativeStringify (core_stringify core)),
      exp_encode = Some (NativeEncode (core_encode core)),
      exp_decode = Some (NativeDecode (core_decode core))\<rparr>"

text \<open>
  The binding object that passes the four \<^verbatim>\<open>typeof\<close> checks of \<^verbatim>\<open>loadNative\<close> when
  \<^verbatim>\<open>require\<close> yields the exports of \<^verbatim>\<open>Init\<close>.
\<close>

definition addon :: "KodaCore \<Rightarrow> NativeBinding" where
  "addon core =
     \<lparr>nb_parse = NativeParse (core_parse core),
      nb_stringify = NativeStringify (core_stringify core),
      nb_encode = NativeEncode (core_encode core),
      nb_decode = NativeDecode (core_decode core)\<rparr>"

text \<open>
  The module variable \<^verbatim>\<open>cached\<close>: \<^verbatim>\<open>undefined\<close> before the first call, then the binding
  or \<^verbatim>\<open>null\<close>.
\<close>

datatype cached = Unset | Loaded "NativeBinding option"

text \<open>
  \<^verbatim>\<open>loadNative\<close>, native.ts lines 22-41. \<open>req callerUrl addonPath\<close> is
  \<^verbatim>\<open>createRequire(callerUrl)(addonPath)\<close>, \<open>None\<close> when it throws. The result is the
  returned binding and the new content of \<^verbatim>\<open>cached\<close>.
\<close>

definition loadNative ::
  "(string \<Rightarrow> string \<Rightarrow> AddonExports option) \<Rightarrow> cached \<Rightarrow> string \<Rightarrow> string \<Rightarrow>
   NativeBinding option \<times> cached" where
  "loadNative req c callerUrl addonPath =
     (case c of
        Loaded r \<Rightarrow> (r, c)
      | Unset \<Rightarrow>
          (case req callerUrl addonPath of
             None \<Rightarrow> (None, Loaded None)
           | Some binding \<Rightarrow>
               (case (exp_parse binding, exp_stringify binding, exp_encode binding,
                      exp_decode binding) of
                  (Some p, Some s, Some e, Some d) \<Rightarrow>
                    (let b = \<lparr>nb_parse = p, nb_stringify = s, nb_encode = e, nb_decode = d\<rparr>
                     in (Some b, Loaded (Some b)))
                | _ \<Rightarrow> (None, Loaded None))))"

subsection \<open>index.ts: the entry points\<close>

record ParseOptions =
  p_maxDepth :: "nat option"
  maxInputLength :: "nat option"

datatype indent = IndentString string | IndentNumber nat

record StringifyOptions =
  indent :: "indent option"
  newline :: "string option"

record EncodeOptions =
  e_maxDepth :: "nat option"

record DecodeOptions =
  d_maxDepth :: "nat option"
  maxDictionarySize :: "nat option"
  maxStringLength :: "nat option"

text \<open>\<^verbatim>\<open>options?.field\<close>.\<close>

definition opt_field :: "'o option \<Rightarrow> ('o \<Rightarrow> 'a option) \<Rightarrow> 'a option" where
  "opt_field options f = (case options of None \<Rightarrow> None | Some r \<Rightarrow> f r)"

text \<open>\<^verbatim>\<open>!options?.indent\<close>: the indent is missing, the empty string or zero.\<close>

definition no_indent :: "StringifyOptions option \<Rightarrow> bool" where
  "no_indent options =
     (case opt_field options indent of
        None \<Rightarrow> True
      | Some (IndentString s) \<Rightarrow> s = []
      | Some (IndentNumber n) \<Rightarrow> n = 0)"

text \<open>
  The JavaScript fallback modules \<^verbatim>\<open>parseFast.js\<close>, \<^verbatim>\<open>stringify.js\<close>, \<^verbatim>\<open>encoder.js\<close> and
  \<^verbatim>\<open>decoder.js\<close>, as imported by index.ts and by the worker.
\<close>

record JsFallback =
  parseFast :: "string \<Rightarrow> ParseOptions option \<Rightarrow> thrown + napi"
  stringifyText :: "napi \<Rightarrow> StringifyOptions option \<Rightarrow> thrown + string"
  encodeBinary :: "napi \<Rightarrow> EncodeOptions option \<Rightarrow> thrown + byte list"
  decodeBinary :: "byte list \<Rightarrow> DecodeOptions option \<Rightarrow> thrown + napi"

text \<open>
  The module of index.ts in its process: how \<^verbatim>\<open>require\<close> answers, and the two arguments
  \<^verbatim>\<open>import.meta.url\<close> and \<^verbatim>\<open>_addonPath\<close> that \<^verbatim>\<open>getNative\<close> passes.
\<close>

record ModuleEnv =
  req :: "string \<Rightarrow> string \<Rightarrow> AddonExports option"
  import_meta_url :: string
  addon_path :: string

definition getNative :: "ModuleEnv \<Rightarrow> cached \<Rightarrow> NativeBinding option \<times> cached" where
  "getNative env c = loadNative (req env) c (import_meta_url env) (addon_path env)"

text \<open>
  The \<^verbatim>\<open>try/catch\<close> of \<^verbatim>\<open>parse\<close> and \<^verbatim>\<open>decodeSync\<close>:
  \<^verbatim>\<open>throw e instanceof K ? e : new K((e as Error).message)\<close>. What leaves the \<^verbatim>\<open>catch\<close>
  block is \<open>e\<close> itself, or the new error, or the \<^verbatim>\<open>TypeError\<close> of the property read. An
  \<^verbatim>\<open>undefined\<close> message leaves the message of the new error empty.
\<close>

definition rethrow_as_KodaParseError :: "thrown + 'a \<Rightarrow> thrown + 'a" where
  "rethrow_as_KodaParseError r =
     (case r of
        Inr v \<Rightarrow> Inr v
      | Inl e \<Rightarrow>
          Inl (if instanceof e KodaParseError then e
               else (case message_of e of
                       Inl type_error \<Rightarrow> type_error
                     | Inr None \<Rightarrow> new_KodaParseError []
                     | Inr (Some m) \<Rightarrow> new_KodaParseError m)))"

definition rethrow_as_KodaDecodeError :: "thrown + 'a \<Rightarrow> thrown + 'a" where
  "rethrow_as_KodaDecodeError r =
     (case r of
        Inr v \<Rightarrow> Inr v
      | Inl e \<Rightarrow>
          Inl (if instanceof e KodaDecodeError then e
               else (case message_of e of
                       Inl type_error \<Rightarrow> type_error
                     | Inr None \<Rightarrow> new_KodaDecodeError []
                     | Inr (Some m) \<Rightarrow> new_KodaDecodeError m)))"

text \<open>
  The bodies of \<^verbatim>\<open>parse\<close>, \<^verbatim>\<open>stringify\<close>, \<^verbatim>\<open>encode\<close> and \<^verbatim>\<open>decodeSync\<close> after
  \<^verbatim>\<open>const native = getNative()\<close>, index.ts lines 52-115.
\<close>

definition parse_on ::
  "NativeBinding option \<Rightarrow> JsFallback \<Rightarrow> string \<Rightarrow> ParseOptions option \<Rightarrow> thrown + napi" where
  "parse_on native js text options =
     (case native of
        Some nb \<Rightarrow> rethrow_as_KodaParseError (nb_parse nb text (opt_field options p_maxDepth))
      | None \<Rightarrow> parseFast js text options)"

definition stringify_on ::
  "NativeBinding option \<Rightarrow> JsFallback \<Rightarrow> napi \<Rightarrow> StringifyOptions option \<Rightarrow> thrown + string" where
  "stringify_on native js v options =
     (case native of
        Some nb \<Rightarrow> if no_indent options then nb_stringify nb v else stringifyText js v options
      | None \<Rightarrow> stringifyText js v options)"

definition encode_on ::
  "NativeBinding option \<Rightarrow> JsFallback \<Rightarrow> napi \<Rightarrow> EncodeOptions option \<Rightarrow> thrown + byte list" where
  "encode_on native js v options =
     (case native of
        Some nb \<Rightarrow> nb_encode nb v (opt_field options e_maxDepth)
      | None \<Rightarrow> encodeBinary js v options)"

definition decodeSync_on ::
  "NativeBinding option \<Rightarrow> JsFallback \<Rightarrow> byte list \<Rightarrow> DecodeOptions option \<Rightarrow> thrown + napi" where
  "decodeSync_on native js buffer options =
     (case native of
        Some nb \<Rightarrow>
          rethrow_as_KodaDecodeError
            (nb_decode nb buffer (opt_field options d_maxDepth)
               (opt_field options maxDictionarySize) (opt_field options maxStringLength))
      | None \<Rightarrow> decodeBinary js buffer options)"

text \<open>The entry points themselves: the call of \<^verbatim>\<open>getNative\<close>, then the body.\<close>

definition parse ::
  "ModuleEnv \<Rightarrow> JsFallback \<Rightarrow> cached \<Rightarrow> string \<Rightarrow> ParseOptions option \<Rightarrow>
   (thrown + napi) \<times> cached" where
  "parse env js c text options =
     (let (native, c') = getNative env c in (parse_on native js text options, c'))"

definition stringify ::
  "ModuleEnv \<Rightarrow> JsFallback \<Rightarrow> cached \<Rightarrow> napi \<Rightarrow> StringifyOptions option \<Rightarrow>
   (thrown + string) \<times> cached" where
  "stringify env js c v options =
     (let (native, c') = getNative env c in (stringify_on native js v options, c'))"

definition encode ::
  "ModuleEnv \<Rightarrow> JsFallback \<Rightarrow> cached \<Rightarrow> napi \<Rightarrow> EncodeOptions option \<Rightarrow>
   (thrown + byte list) \<times> cached" where
  "encode env js c v options =
     (let (native, c') = getNative env c in (encode_on native js v options, c'))"

definition decodeSync ::
  "ModuleEnv \<Rightarrow> JsFallback \<Rightarrow> cached \<Rightarrow> byte list \<Rightarrow> DecodeOptions option \<Rightarrow>
   (thrown + napi) \<times> cached" where
  "decodeSync env js c buffer options =
     (let (native, c') = getNative env c in (decodeSync_on native js buffer options, c'))"

subsection \<open>decoder-worker.ts\<close>

record DecoderWorkerMessageIn =
  msg_id :: nat
  msg_buffer :: "byte list"
  msg_options :: "DecodeOptions option"

datatype DecoderWorkerMessageOut =
    MessageOutSuccess nat napi
  | MessageOutError nat string

text \<open>\<^verbatim>\<open>doDecode\<close>, decoder-worker.ts lines 41-52, after \<^verbatim>\<open>const binding = getNative()\<close>.\<close>

definition doDecode ::
  "NativeBinding option \<Rightarrow> JsFallback \<Rightarrow> byte list \<Rightarrow> DecodeOptions option \<Rightarrow> thrown + napi" where
  "doDecode binding js buffer options =
     (case binding of
        Some nb \<Rightarrow>
          nb_decode nb buffer (opt_field options d_maxDepth)
            (opt_field options maxDictionarySize) (opt_field options maxStringLength)
      | None \<Rightarrow> decodeBinary js buffer options)"

text \<open>The message handler, decoder-worker.ts lines 54-63: the message it posts back.\<close>

definition on_message ::
  "NativeBinding option \<Rightarrow> JsFallback \<Rightarrow> DecoderWorkerMessageIn \<Rightarrow> DecoderWorkerMessageOut" where
  "on_message binding js msg =
     (case doDecode binding js (msg_buffer msg) (msg_options msg) of
        Inr v \<Rightarrow> MessageOutSuccess (msg_id msg) v
      | Inl err \<Rightarrow> MessageOutError (msg_id msg) (message_or_string err))"

text \<open>
  Modelled from the spec: \<^verbatim>\<open>decode-async.ts\<close> is not among the sources. Sections 5 and 7 of
  the specification describe it: the byte buffer is shipped to a worker, the synchronous
  decoder is invoked there, and the caller gets a promise of the Value, which is rejected
  when the job fails. The promise is held in its settled state; the rejection carries the
  string the worker posted.
\<close>

datatype 'a promise = Resolved 'a | Rejected thrown

definition decodeAsync ::
  "(DecoderWorkerMessageIn \<Rightarrow> DecoderWorkerMessageOut) \<Rightarrow> nat \<Rightarrow> byte list \<Rightarrow>
   DecodeOptions option \<Rightarrow> napi promise" where
  "decodeAsync worker job buffer options =
     (case worker \<lparr>msg_id = job, msg_buffer = buffer, msg_options = options\<rparr> of
        MessageOutSuccess i v \<Rightarrow> Resolved v
      | MessageOutError i m \<Rightarrow>
          Rejected (Thrown \<lparr>err_class = PlainError, message = m, byteOffset = None\<rparr>))"

text \<open>
  \<^verbatim>\<open>decode\<close>, index.ts lines 92-94, with the worker that serves the job. \<open>native\<close> is
  what \<^verbatim>\<open>getNative\<close> returns in the worker thread.
\<close>

definition decode_on ::
  "NativeBinding option \<Rightarrow> JsFallback \<Rightarrow> nat \<Rightarrow> byte list \<Rightarrow> DecodeOptions option \<Rightarrow>
   napi promise" where
  "decode_on native js job buffer options =
     decodeAsync (on_message native js) job buffer options"

text \<open>The value a settled promise resolved to, and the value a call returned.\<close>

fun settled :: "'a promise \<Rightarrow> 'a option" where
  "settled (Resolved v) = Some v"
| "settled (Rejected e) = None"

fun returned :: "thrown + 'a \<Rightarrow> 'a option" where
  "returned (Inr v) = Some v"
| "returned (Inl e) = None"

text \<open>Every \<open>JUndefined\<close> and \<open>JOther\<close> inside a host value replaced by \<open>JNull\<close>.\<close>

fun nullify :: "napi \<Rightarrow> napi" where
  "nullify JUndefined = JNull"
| "nullify JOther = JNull"
| "nullify (JArray arr) = JArray (map nullify arr)"
| "nullify (JObject props) = JObject (map (\<lambda>(k, v). (k, nullify v)) props)"
| "nullify v = v"

section \<open>The binary format of the specification\<close>

text \<open>
  Modelled from the spec: the encoder and decoder of the C++ core (\<^verbatim>\<open>koda_binary.cc\<close>) are
  not among the sources. The definitions of this section follow sections 4.3 and 4.4 of
  the specification: the layout (magic, version, key dictionary, one value), the tag
  table, the canonicalization rules and the decoder's validation order.
\<close>

subsection \<open>Bytes, integers and UTF-8\<close>

text \<open>
  Modelled from the spec: multi-byte integers are unsigned big-endian. \<open>be_bytes k n\<close> is
  \<open>n\<close> in \<open>k\<close> bytes, \<open>be_nat\<close> reads such a field.
\<close>

fun be_bytes :: "nat \<Rightarrow> nat \<Rightarrow> byte list" where
  "be_bytes 0 n = []"
| "be_bytes (Suc k) n = be_bytes k (n div 256) @ [of_nat (n mod 256)]"

definition be_nat :: "byte list \<Rightarrow> nat" where
  "be_nat bs = foldl (\<lambda>a b. a * 256 + unat b) 0 bs"

definition u32 :: "nat \<Rightarrow> byte list" where
  "u32 n = be_bytes 4 n"

definition be64 :: "64 word \<Rightarrow> byte list" where
  "be64 w = be_bytes 8 (unat w)"

definition byte_of_char :: "char \<Rightarrow> byte" where
  "byte_of_char c = of_nat (of_char c)"

definition char_of_byte :: "byte \<Rightarrow> char" where
  "char_of_byte b = char_of (unat b)"

definition utf8_bytes :: "string \<Rightarrow> byte list" where
  "utf8_bytes s = map byte_of_char s"

definition string_of_bytes :: "byte list \<Rightarrow> string" where
  "string_of_bytes bs = map char_of_byte bs"

text \<open>
  Modelled from the spec: string payloads are well-formed UTF-8. \<open>utf8_bad bs\<close> is the
  position of the first ill-formed sequence of \<open>bs\<close>, \<open>None\<close> when there is none.
\<close>

definition is_cont :: "nat \<Rightarrow> bool" where
  "is_cont b = (0x80 \<le> b \<and> b \<le> 0xBF)"

definition second_ok :: "nat \<Rightarrow> nat \<Rightarrow> bool" where
  "second_ok b0 b1 =
     (if b0 = 0xE0 then 0xA0 \<le> b1 \<and> b1 \<le> 0xBF
      else if b0 = 0xED then 0x80 \<le> b1 \<and> b1 \<le> 0x9F
      else if b0 = 0xF0 then 0x90 \<le> b1 \<and> b1 \<le> 0xBF
      else if b0 = 0xF4 then 0x80 \<le> b1 \<and> b1 \<le> 0x8F
      else is_cont b1)"

fun utf8_bad :: "nat list \<Rightarrow> nat option" where
  "utf8_bad [] = None"
| "utf8_bad (b0 # bs) =
     (if b0 < 0x80 then map_option (\<lambda>k. k + 1) (utf8_bad bs)
      else if 0xC2 \<le> b0 \<and> b0 \<le> 0xDF then
        (case bs of
           b1 # r \<Rightarrow> if is_cont b1 then map_option (\<lambda>k. k + 2) (utf8_bad r) else Some 0
         | _ \<Rightarrow> Some 0)
      else if 0xE0 \<le> b0 \<and> b0 \<le> 0xEF then
        (case bs of
           b1 # b2 # r \<Rightarrow>
             if second_ok b0 b1 \<and> is_cont b2 then map_option (\<lambda>k. k + 3) (utf8_bad r)
             else Some 0
         | _ \<Rightarrow> Some 0)
      else if 0xF0 \<le> b0 \<and> b0 \<le> 0xF4 then
        (case bs of
           b1 # b2 # b3 # r \<Rightarrow>
             if second_ok b0 b1 \<and> is_cont b2 \<and> is_cont b3
             then map_option (\<lambda>k. k + 4) (utf8_bad r)
             else Some 0
         | _ \<Rightarrow> Some 0)
      else Some 0)"

definition valid_utf8 :: "string \<Rightarrow> bool" where
  "valid_utf8 s = (utf8_bad (map of_char s) = None)"

subsection \<open>The encoder\<close>

text \<open>
  Modelled from the spec: section 4.3. The dictionary is the set of keys of the tree,
  sorted by their bytes; an object's pairs are emitted in ascending key order, each key as
  its dictionary index; a NaN is emitted as the canonical quiet NaN. Depth is 1 for a
  scalar and 1 + the maximum child depth for a container.
\<close>

definition magic :: "byte list" where
  "magic = [0x4B, 0x4F, 0x44, 0x41]"

definition format_version :: byte where
  "format_version = 1"

definition canonical_nan :: double where
  "canonical_nan = 0x7FF8000000000000"

definition max_list :: "nat list \<Rightarrow> nat" where
  "max_list xs = foldr max xs 0"

fun depth :: "Value \<Rightarrow> nat" where
  "depth (VArray arr) = 1 + max_list (map depth arr)"
| "depth (VObject obj) = 1 + max_list (map (\<lambda>(k, v). depth v) obj)"
| "depth v = 1"

fun collect_keys :: "Value \<Rightarrow> string list" where
  "collect_keys (VArray arr) = concat (map collect_keys arr)"
| "collect_keys (VObject obj) = concat (map (\<lambda>(k, v). k # collect_keys v) obj)"
| "collect_keys v = []"

definition build_dictionary :: "Value \<Rightarrow> string list" where
  "build_dictionary v = sort (remdups (collect_keys v))"

fun key_index :: "string list \<Rightarrow> string \<Rightarrow> nat" where
  "key_index [] k = 0"
| "key_index (x # xs) k = (if x = k then 0 else Suc (key_index xs k))"

fun encode_value :: "string list \<Rightarrow> Value \<Rightarrow> byte list" where
  "encode_value dict VNull = [0x01]"
| "encode_value dict (VBool b) = (if b then [0x03] else [0x02])"
| "encode_value dict (VInt i) = 0x04 # be64 i"
| "encode_value dict (VFloat d) = 0x05 # be64 (if isnan d then canonical_nan else d)"
| "encode_value dict (VString s) = 0x06 # u32 (length s) @ utf8_bytes s"
| "encode_value dict (VArray arr) =
     0x10 # u32 (length arr) @ concat (map (encode_value dict) arr)"
| "encode_value dict (VObject obj) =
     0x11 # u32 (length obj) @
     concat (map (\<lambda>(k, v). u32 (key_index dict k) @ encode_value dict v) (sort_key fst obj))"

text \<open>
  Modelled from the spec: the failures of the encoder are an exceeded depth, invalid UTF-8
  in a string or key, a duplicate key within one object, and a pair count or dictionary
  size that overflows \<open>u32\<close>.
\<close>

fun strings_valid :: "Value \<Rightarrow> bool" where
  "strings_valid (VString s) = valid_utf8 s"
| "strings_valid (VArray arr) = list_all strings_valid arr"
| "strings_valid (VObject obj) = list_all (\<lambda>(k, v). valid_utf8 k \<and> strings_valid v) obj"
| "strings_valid v = True"

fun keys_unique :: "Value \<Rightarrow> bool" where
  "keys_unique (VArray arr) = list_all keys_unique arr"
| "keys_unique (VObject obj) =
     (distinct (map fst obj) \<and> list_all (\<lambda>(k, v). keys_unique v) obj)"
| "keys_unique v = True"

fun pair_counts_fit :: "Value \<Rightarrow> bool" where
  "pair_counts_fit (VArray arr) = list_all pair_counts_fit arr"
| "pair_counts_fit (VObject obj) =
     (length obj < 2 ^ 32 \<and> list_all (\<lambda>(k, v). pair_counts_fit v) obj)"
| "pair_counts_fit v = True"

definition encode_failure :: "string \<Rightarrow> KodaException + 'a" where
  "encode_failure msg = Inl \<lparr>what = msg, at_byte = None\<rparr>"

definition koda_encode :: "Value \<Rightarrow> nat \<Rightarrow> KodaException + byte list" where
  "koda_encode v max_depth =
     (let dict = build_dictionary v in
      if max_depth < depth v then encode_failure ''maximum depth exceeded''
      else if \<not> strings_valid v then encode_failure ''invalid UTF-8''
      else if \<not> keys_unique v then encode_failure ''duplicate key''
      else if \<not> pair_counts_fit v \<or> 2 ^ 32 \<le> length dict then
        encode_failure ''count overflows u32''
      else
        Inr (magic @ [format_version] @ u32 (length dict) @
             concat (map (\<lambda>k. u32 (length k) @ utf8_bytes k) dict) @
             encode_value dict v))"

subsection \<open>The decoder\<close>

text \<open>
  Modelled from the spec: section 4.4. Every failure carries the byte offset at which
  validation failed. The decoder checks the header, reads the dictionary under
  \<open>maxDictionarySize\<close> and \<open>maxStringLength\<close>, checks that it is strictly ascending, reads the
  root value under \<open>maxDepth\<close> and \<open>maxStringLength\<close>, and rejects trailing bytes.
\<close>

definition decode_failure :: "string \<Rightarrow> nat \<Rightarrow> KodaException + 'a" where
  "decode_failure msg off = Inl \<lparr>what = msg, at_byte = Some off\<rparr>"

definition read_u32 :: "nat \<Rightarrow> byte list \<Rightarrow> KodaException + (nat \<times> nat \<times> byte list)" where
  "read_u32 off bs =
     (if length bs < 4 then decode_failure ''unexpected end of input'' off
      else Inr (be_nat (take 4 bs), off + 4, drop 4 bs))"

definition read_u64 :: "nat \<Rightarrow> byte list \<Rightarrow> KodaException + (64 word \<times> nat \<times> byte list)" where
  "read_u64 off bs =
     (if length bs < 8 then decode_failure ''unexpected end of input'' off
      else Inr (of_nat (be_nat (take 8 bs)), off + 8, drop 8 bs))"

definition read_string ::
  "nat \<Rightarrow> nat \<Rightarrow> byte list \<Rightarrow> KodaException + (string \<times> nat \<times> byte list)" where
  "read_string n off bs =
     (if length bs < n then decode_failure ''string length exceeds remaining bytes'' off
      else case utf8_bad (map unat (take n bs)) of
             Some bad \<Rightarrow> decode_failure ''invalid UTF-8'' (off + bad)
           | None \<Rightarrow> Inr (string_of_bytes (take n bs), off + n, drop n bs))"

text \<open>
  Modelled from the spec: a scalar has one of the tags 0x01 to 0x06; every other tag byte
  is unknown. Section 5 makes \<open>maxStringLength\<close> a hard bound and property 6 of section 8
  has the decoder reject every input that exceeds it, so the length of a String value is
  checked against the bound as the length of a dictionary key is, before its bytes are
  read.
\<close>

definition decode_scalar ::
  "nat \<Rightarrow> byte \<Rightarrow> nat \<Rightarrow> byte list \<Rightarrow> KodaException + (Value \<times> nat \<times> byte list)" where
  "decode_scalar max_str tag off rest =
     (if tag = 0x01 then Inr (VNull, off + 1, rest)
      else if tag = 0x02 then Inr (VBool False, off + 1, rest)
      else if tag = 0x03 then Inr (VBool True, off + 1, rest)
      else if tag = 0x04 then
        (case read_u64 (off + 1) rest of
           Inl e \<Rightarrow> Inl e
         | Inr (w, off', rest') \<Rightarrow> Inr (VInt w, off', rest'))
      else if tag = 0x05 then
        (case read_u64 (off + 1) rest of
           Inl e \<Rightarrow> Inl e
         | Inr (w, off', rest') \<Rightarrow> Inr (VFloat w, off', rest'))
      else if tag = 0x06 then
        (case read_u32 (off + 1) rest of
           Inl e \<Rightarrow> Inl e
         | Inr (n, off', rest') \<Rightarrow>
             if max_str < n then decode_failure ''string too long'' (off + 1)
             else
               (case read_string n off' rest' of
                  Inl e \<Rightarrow> Inl e
                | Inr (s, off'', rest'') \<Rightarrow> Inr (VString s, off'', rest'')))
      else decode_failure ''unknown type tag'' off)"

text \<open>The count of an array or object: a u32 that must not exceed the remaining bytes.\<close>

definition read_count :: "nat \<Rightarrow> byte list \<Rightarrow> KodaException + (nat \<times> nat \<times> byte list)" where
  "read_count off bs =
     (case read_u32 off bs of
        Inl e \<Rightarrow> Inl e
      | Inr (n, off', rest') \<Rightarrow>
          if length rest' < n then decode_failure ''count exceeds remaining bytes'' off
          else Inr (n, off', rest'))"

text \<open>
  The key index of a pair: below the dictionary size, and above the index of the pair
  before it.
\<close>

definition read_key_index ::
  "string list \<Rightarrow> nat option \<Rightarrow> nat \<Rightarrow> byte list \<Rightarrow>
   KodaException + (nat \<times> nat \<times> byte list)" where
  "read_key_index dict prev off bs =
     (case read_u32 off bs of
        Inl e \<Rightarrow> Inl e
      | Inr (idx, off', bs') \<Rightarrow>
          if length dict \<le> idx then decode_failure ''key index out of range'' off
          else if (case prev of None \<Rightarrow> False | Some p \<Rightarrow> idx \<le> p) then
            decode_failure ''key indices not strictly ascending'' off
          else Inr (idx, off', bs'))"

definition cons_result ::
  "'a \<Rightarrow> KodaException + ('a list \<times> nat \<times> byte list) \<Rightarrow>
   KodaException + ('a list \<times> nat \<times> byte list)" where
  "cons_result x r =
     (case r of Inl e \<Rightarrow> Inl e | Inr (xs, off, bs) \<Rightarrow> Inr (x # xs, off, bs))"

definition container_result ::
  "('a \<Rightarrow> Value) \<Rightarrow> KodaException + ('a \<times> nat \<times> byte list) \<Rightarrow>
   KodaException + (Value \<times> nat \<times> byte list)" where
  "container_result mk r =
     (case r of Inl e \<Rightarrow> Inl e | Inr (x, off, bs) \<Rightarrow> Inr (mk x, off, bs))"

function (sequential) decode_value ::
    "nat \<Rightarrow> string list \<Rightarrow> nat \<Rightarrow> nat \<Rightarrow> byte list \<Rightarrow>
     KodaException + (Value \<times> nat \<times> byte list)"
  and decode_elements ::
    "nat \<Rightarrow> string list \<Rightarrow> nat \<Rightarrow> nat \<Rightarrow> nat \<Rightarrow> byte list \<Rightarrow>
     KodaException + (Value list \<times> nat \<times> byte list)"
  and decode_pairs ::
    "nat \<Rightarrow> string list \<Rightarrow> nat \<Rightarrow> nat \<Rightarrow> nat option \<Rightarrow> nat \<Rightarrow> byte list \<Rightarrow>
     KodaException + ((string \<times> Value) list \<times> nat \<times> byte list)"
where
  "decode_value max_str dict 0 off bs = decode_failure ''maximum depth exceeded'' off"
| "decode_value max_str dict (Suc d) off [] = decode_failure ''unexpected end of input'' off"
| "decode_value max_str dict (Suc d) off (tag # rest) =
     (if tag = 0x10 then
        (case read_count (off + 1) rest of
           Inl e \<Rightarrow> Inl e
         | Inr (n, off', rest') \<Rightarrow> container_result VArray (decode_elements max_str dict d n off' rest'))
      else if tag = 0x11 then
        (case read_count (off + 1) rest of
           Inl e \<Rightarrow> Inl e
         | Inr (n, off', rest') \<Rightarrow>
             container_result VObject (decode_pairs max_str dict d n None off' rest'))
      else decode_scalar max_str tag off rest)"
| "decode_elements max_str dict d 0 off bs = Inr ([], off, bs)"
| "decode_elements max_str dict d (Suc n) off bs =
     (case decode_value max_str dict d off bs of
        Inl e \<Rightarrow> Inl e
      | Inr (v, off', bs') \<Rightarrow> cons_result v (decode_elements max_str dict d n off' bs'))"
| "decode_pairs max_str dict d 0 prev off bs = Inr ([], off, bs)"
| "decode_pairs max_str dict d (Suc n) prev off bs =
     (case read_key_index dict prev off bs of
        Inl e \<Rightarrow> Inl e
      | Inr (idx, off', bs') \<Rightarrow>
          (case decode_value max_str dict d off' bs' of
             Inl e \<Rightarrow> Inl e
           | Inr (v, off'', bs'') \<Rightarrow>
               cons_result (dict ! idx, v) (decode_pairs max_str dict d n (Some idx) off'' bs'')))"
  by pat_completeness auto

termination
  by (relation "inv_image (less_than <*lex*> less_than)
       (\<lambda>x. case x of
              Inl (max_str, dict, d, off, bs) \<Rightarrow> (d, 0)
            | Inr (Inl (max_str, dict, d, n, off, bs)) \<Rightarrow> (d, Suc n)
            | Inr (Inr (max_str, dict, d, n, prev, off, bs)) \<Rightarrow> (d, Suc n))")
    auto

fun decode_dictionary ::
  "nat \<Rightarrow> nat \<Rightarrow> nat \<Rightarrow> byte list \<Rightarrow> KodaException + ((string \<times> nat) list \<times> nat \<times> byte list)" where
  "decode_dictionary max_str 0 off bs = Inr ([], off, bs)"
| "decode_dictionary max_str (Suc n) off bs =
     (case read_u32 off bs of
        Inl e \<Rightarrow> Inl e
      | Inr (l, off', bs') \<Rightarrow>
          if max_str < l then decode_failure ''dictionary key too long'' off
          else
            (case read_string l off' bs' of
               Inl e \<Rightarrow> Inl e
             | Inr (k, off'', bs'') \<Rightarrow>
                 (case decode_dictionary max_str n off'' bs'' of
                    Inl e \<Rightarrow> Inl e
                  | Inr (ks, off''', bs''') \<Rightarrow> Inr ((k, off) # ks, off''', bs'''))))"

fun first_unsorted :: "(string \<times> nat) list \<Rightarrow> nat option" where
  "first_unsorted (a # b # ks) =
     (if fst a < fst b then first_unsorted (b # ks) else Some (snd b))"
| "first_unsorted ks = None"

definition koda_decode :: "byte list \<Rightarrow> nat \<Rightarrow> nat \<Rightarrow> nat \<Rightarrow> KodaException + Value" where
  "koda_decode bs max_depth max_dict max_str =
     (if length bs < 5 then decode_failure ''input shorter than the header'' 0
      else if take 4 bs \<noteq> magic then decode_failure ''bad magic'' 0
      else if bs ! 4 \<noteq> format_version then decode_failure ''unsupported version'' 4
      else
        (case read_u32 5 (drop 5 bs) of
           Inl e \<Rightarrow> Inl e
         | Inr (n, off, rest) \<Rightarrow>
             if max_dict < n then decode_failure ''dictionary too large'' 5
             else
               (case decode_dictionary max_str n off rest of
                  Inl e \<Rightarrow> Inl e
                | Inr (entries, off', rest') \<Rightarrow>
                    (case first_unsorted entries of
                       Some bad \<Rightarrow> decode_failure ''dictionary not in canonical order'' bad
                     | None \<Rightarrow>
                         (case decode_value max_str (map fst entries) max_depth off' rest' of
                            Inl e \<Rightarrow> Inl e
                          | Inr (v, off'', rest'') \<Rightarrow>
                              if rest'' \<noteq> [] then decode_failure ''trailing bytes'' off''
                              else Inr v)))))"

subsection \<open>Structural equality and the values the host can carry\<close>

text \<open>
  Modelled from the spec: section 4.6 and section 3. Two Values are structurally equal
  when they have the same shape, the same scalars (Int and Float never equal; all NaNs
  equal, as section 4.4 says of equality testing), and objects with the same pairs in
  any order. Keys are unique within one object.
\<close>

inductive veq :: "Value \<Rightarrow> Value \<Rightarrow> bool" where
  veq_Null: "veq VNull VNull"
| veq_Bool: "veq (VBool b) (VBool b)"
| veq_Int: "veq (VInt i) (VInt i)"
| veq_Float: "d = e \<or> (isnan d \<and> isnan e) \<Longrightarrow> veq (VFloat d) (VFloat e)"
| veq_String: "veq (VString s) (VString s)"
| veq_Array: "list_all2 veq xs ys \<Longrightarrow> veq (VArray xs) (VArray ys)"
| veq_Object:
    "distinct (map fst xs) \<Longrightarrow> mset ys' = mset ys \<Longrightarrow>
     list_all2 (\<lambda>p q. fst p = fst q \<and> veq (snd p) (snd q)) xs ys' \<Longrightarrow>
     veq (VObject xs) (VObject ys)"

text \<open>
  The canonical form of a Value, which the decoder reconstructs from the encoder's bytes:
  pairs in ascending key order, every NaN the canonical NaN.
\<close>

fun canon :: "Value \<Rightarrow> Value" where
  "canon (VFloat d) = VFloat (if isnan d then canonical_nan else d)"
| "canon (VArray arr) = VArray (map canon arr)"
| "canon (VObject obj) = VObject (map (\<lambda>(k, v). (k, canon v)) (sort_key fst obj))"
| "canon v = v"

text \<open>
  The Values that cross the binding unchanged: Ints of magnitude at most 2^53, and Floats
  that \<^verbatim>\<open>NapiToValue\<close> leaves Floats.
\<close>

fun host_stable :: "Value \<Rightarrow> bool" where
  "host_stable (VInt i) = (- (2 ^ 53) \<le> sint i \<and> sint i \<le> 2 ^ 53)"
| "host_stable (VFloat d) = (NapiToValue (JNumber d) = VFloat d)"
| "host_stable (VArray arr) = list_all host_stable arr"
| "host_stable (VObject obj) = list_all (\<lambda>(k, v). host_stable v) obj"
| "host_stable v = True"

text \<open>
  The keys that \<^verbatim>\<open>obj.Set(key, v)\<close> and \<^verbatim>\<open>obj.Get(key)\<close> treat as the name of an ordinary
  property: not \<^verbatim>\<open>__proto__\<close>, and without the NUL character, at which a name handed over
  as a C string ends. \<open>plain_keys\<close>: every key of every object of the Value is such a key.
\<close>

definition plain_key :: "string \<Rightarrow> bool" where
  "plain_key k = (k \<noteq> ''__proto__'' \<and> CHR 0x00 \<notin> set k)"

fun plain_keys :: "Value \<Rightarrow> bool" where
  "plain_keys (VArray arr) = list_all plain_keys arr"
| "plain_keys (VObject obj) = list_all (\<lambda>(k, v). plain_key k \<and> plain_keys v) obj"
| "plain_keys v = True"

text \<open>The string lengths, key lengths and array counts that fit the format's \<open>u32\<close> fields.\<close>

fun lengths_fit :: "Value \<Rightarrow> bool" where
  "lengths_fit (VString s) = (length s < 2 ^ 32)"
| "lengths_fit (VArray arr) = (length arr < 2 ^ 32 \<and> list_all lengths_fit arr)"
| "lengths_fit (VObject obj) = list_all (\<lambda>(k, v). length k < 2 ^ 32 \<and> lengths_fit v) obj"
| "lengths_fit v = True"

text \<open>
  The decoder's resource bounds, as they apply to the encoding of a Value: its depth, the
  size of its dictionary, and the length of every key and of every String value.
\<close>

fun strings_within :: "nat \<Rightarrow> Value \<Rightarrow> bool" where
  "strings_within max_str (VString s) = (length s \<le> max_str)"
| "strings_within max_str (VArray arr) = list_all (strings_within max_str) arr"
| "strings_within max_str (VObject obj) = list_all (\<lambda>(k, v). strings_within max_str v) obj"
| "strings_within max_str v = True"

definition within_decode_bounds :: "Value \<Rightarrow> nat \<Rightarrow> nat \<Rightarrow> nat \<Rightarrow> bool" where
  "within_decode_bounds v max_depth max_dict max_str =
     (depth v \<le> max_depth \<and> length (build_dictionary v) \<le> max_dict \<and>
      list_all (\<lambda>k. length k \<le> max_str) (build_dictionary v) \<and> strings_within max_str v)"

text \<open>
  The C++ core with the codec of the specification in the place of \<^verbatim>\<open>koda::encode\<close> and
  \<^verbatim>\<open>koda::decode\<close>; the text functions stay parameters.
\<close>

definition spec_core ::
  "(string \<Rightarrow> nat \<Rightarrow> KodaException + Value) \<Rightarrow> (Value \<Rightarrow> KodaException + string) \<Rightarrow> KodaCore" where
  "spec_core prs str =
     \<lparr>core_parse = prs, core_stringify = str,
      core_encode = koda_encode, core_decode = koda_decode\<rparr>"

section \<open>Properties\<close>

subsection \<open>Conversions between \<^verbatim>\<open>int64_t\<close> and \<^verbatim>\<open>double\<close>\<close>

lemma bitlen_bounds: "0 < n \<Longrightarrow> 2 ^ (bitlen n - 1) \<le> n \<and> n < 2 ^ bitlen n"
proof (induction n rule: bitlen.induct)
  case (1 n)
  show ?case
  proof (cases "n div 2 = 0")
    case True
    with "1.prems" have "n = 1" by (cases n) auto
    then show ?thesis by (simp add: bitlen.simps)
  next
    case False
    then have pos: "0 < n div 2" by simp
    from "1.IH" "1.prems" pos
    have ih: "2 ^ (bitlen (n div 2) - 1) \<le> n div 2" "n div 2 < 2 ^ bitlen (n div 2)"
      by auto
    have bl: "bitlen n = Suc (bitlen (n div 2))"
      using "1.prems" by (subst bitlen.simps) simp
    have bpos: "0 < bitlen (n div 2)"
      using pos by (subst bitlen.simps) simp
    then obtain k where k: "bitlen (n div 2) = Suc k" by (cases "bitlen (n div 2)") auto
    from ih k have "2 ^ k \<le> n div 2" "n div 2 < 2 ^ Suc k" by auto
    then have "2 * 2 ^ k \<le> n" "n < 2 * 2 ^ Suc k" by auto
    then show ?thesis by (simp add: bl k)
  qed
qed

lemma unat_mk_double:
  assumes "e < 2048" "m < 2 ^ 52"
  shows "unat (mk_double s e m) = (if s then 2 ^ 63 else 0) + e * 2 ^ 52 + m"
proof -
  have "e * 2 ^ 52 + m < 2048 * 2 ^ 52" using assms by simp
  then have "(if s then 2 ^ 63 else 0) + e * 2 ^ 52 + m < (2::nat) ^ 64"
    by simp
  then show ?thesis
    unfolding mk_double_def unat_of_nat by simp
qed

lemma mk_double_fields:
  assumes "e < 2048" "m < 2 ^ 52"
  shows "dbl_sign (mk_double s e m) = s"
    and "dbl_expo (mk_double s e m) = e"
    and "dbl_mant (mk_double s e m) = m"
    and "dbl_mag (mk_double s e m) = e * 2 ^ 52 + m"
proof -
  have lt: "e * 2 ^ 52 + m < 2 ^ 63" using assms by simp
  show "dbl_sign (mk_double s e m) = s"
    using lt unfolding dbl_sign_def unat_mk_double [OF assms] by simp
  have "(2 ^ 63 + e * 2 ^ 52 + m) div 2 ^ 52 = 2048 + e"
    using assms by simp
  then show "dbl_expo (mk_double s e m) = e"
    using assms unfolding dbl_expo_def unat_mk_double [OF assms] by simp
  have "(2::nat) ^ 63 + e * 2 ^ 52 + m = (2048 + e) * 2 ^ 52 + m"
    by simp
  then have "((2::nat) ^ 63 + e * 2 ^ 52 + m) mod 2 ^ 52 = m mod 2 ^ 52"
    by (metis mod_mult_self3)
  then have "((2::nat) ^ 63 + e * 2 ^ 52 + m) mod 2 ^ 52 = m"
    using assms by simp
  then show "dbl_mant (mk_double s e m) = m"
    using assms unfolding dbl_mant_def unat_mk_double [OF assms] by simp
  have "(2 ^ 63 + e * 2 ^ 52 + m) mod 2 ^ 63 = e * 2 ^ 52 + m"
    using lt by (simp add: add.assoc)
  then show "dbl_mag (mk_double s e m) = e * 2 ^ 52 + m"
    using lt unfolding dbl_mag_def unat_mk_double [OF assms] by simp
qed

lemma round_to_53_exact:
  assumes "0 < n" "n \<le> 2 ^ 53"
  shows "\<exists>q e. round_to_53 n = (q, e) \<and> 2 ^ 52 \<le> q \<and> q < 2 ^ 53 \<and> e \<le> 53 \<and>
           (e \<le> 52 \<longrightarrow> q = n * 2 ^ (52 - e)) \<and> (e = 53 \<longrightarrow> q = 2 ^ 52 \<and> n = 2 ^ 53)"
proof -
  define e where "e = bitlen n - 1"
  have bpos: "0 < bitlen n" using assms(1) by (subst bitlen.simps) simp
  then have bl: "bitlen n = Suc e" by (simp add: e_def)
  from bitlen_bounds [OF assms(1)] have lo: "2 ^ e \<le> n" and hi: "n < 2 ^ Suc e"
    by (simp_all add: bl)
  have e53: "e \<le> 53"
  proof (rule ccontr)
    assume "\<not> e \<le> 53"
    then have "54 \<le> e" by simp
    then have "(2::nat) ^ 54 \<le> 2 ^ e" by (rule power_increasing) simp
    with lo assms(2) show False by simp
  qed
  show ?thesis
  proof (cases "e \<le> 52")
    case True
    have r: "round_to_53 n = (n * 2 ^ (52 - e), e)"
      using True by (simp add: round_to_53_def bl)
    define p :: nat where "p = 2 ^ (52 - e)"
    have p: "0 < p" by (simp add: p_def)
    have "(2::nat) ^ e * p = 2 ^ (e + (52 - e))" "(2::nat) ^ Suc e * p = 2 ^ (Suc e + (52 - e))"
      unfolding p_def by (simp_all only: power_add)
    then have pw: "(2::nat) ^ e * p = 2 ^ 52" "(2::nat) ^ Suc e * p = 2 ^ 53"
      using True by simp_all
    have "2 ^ e * p \<le> n * p"
      using lo by (rule mult_le_mono1)
    moreover have "n * p < 2 ^ Suc e * p"
      using hi p by (rule mult_strict_right_mono)
    ultimately have "2 ^ 52 \<le> n * p" "n * p < 2 ^ 53"
      unfolding pw by simp_all
    then have "2 ^ 52 \<le> n * 2 ^ (52 - e)" "n * 2 ^ (52 - e) < 2 ^ 53"
      by (simp_all add: p_def)
    with r True show ?thesis by simp
  next
    case False
    with e53 have e: "e = 53" by simp
    with lo assms(2) have n: "n = 2 ^ 53" by simp
    have "bitlen n = 54" using e by (simp add: bl)
    then have "round_to_53 n = (2 ^ 52, 53)"
      by (simp add: round_to_53_def n)
    with e n show ?thesis by simp
  qed
qed

lemma trunc_of_rounded:
  assumes "0 < n" "n \<le> 2 ^ 53" "round_to_53 n = (q, e)"
  shows "double_trunc_mag (mk_double s (e + 1023) (q - 2 ^ 52)) = n"
    and "dbl_sign (mk_double s (e + 1023) (q - 2 ^ 52)) = s"
    and "\<not> isnan (mk_double s (e + 1023) (q - 2 ^ 52))"
    and "dbl_mag (mk_double s (e + 1023) (q - 2 ^ 52)) \<le> 1076 * 2 ^ 52"
proof -
  from round_to_53_exact [OF assms(1,2)] assms(3)
  have q: "2 ^ 52 \<le> q" "q < 2 ^ 53" and e: "e \<le> 53"
    and small: "e \<le> 52 \<Longrightarrow> q = n * 2 ^ (52 - e)"
    and big: "e = 53 \<Longrightarrow> q = 2 ^ 52 \<and> n = 2 ^ 53"
    by auto
  have E: "e + 1023 < 2048" using e by simp
  have M: "q - 2 ^ 52 < 2 ^ 52" using q by simp
  note f = mk_double_fields [OF E M, of s]
  show "dbl_sign (mk_double s (e + 1023) (q - 2 ^ 52)) = s" by (rule f(1))
  show "\<not> isnan (mk_double s (e + 1023) (q - 2 ^ 52))"
    using e f by (simp add: isnan_def)
  show "double_trunc_mag (mk_double s (e + 1023) (q - 2 ^ 52)) = n"
  proof (cases "e < 52")
    case True
    then have "q = n * 2 ^ (52 - e)" using small by simp
    moreover have "1075 - (e + 1023) = 52 - e" by simp
    ultimately show ?thesis
      using True q f by (simp add: double_trunc_mag_def Let_def)
  next
    case False
    then consider "e = 52" | "e = 53" using e by linarith
    then show ?thesis
    proof cases
      case 1
      then have "q = n" using small by simp
      then show ?thesis using 1 q f by (simp add: double_trunc_mag_def Let_def)
    next
      case 2
      then have "q = 2 ^ 52" "n = 2 ^ 53" using big by simp_all
      then show ?thesis using 2 f by (simp add: double_trunc_mag_def Let_def)
    qed
  qed
  show "dbl_mag (mk_double s (e + 1023) (q - 2 ^ 52)) \<le> 1076 * 2 ^ 52"
  proof (cases "e \<le> 52")
    case True
    then have "(e + 1023) * 2 ^ 52 \<le> 1075 * (2::nat) ^ 52" by simp
    then show ?thesis using q f by simp
  next
    case False
    then have "e = 53" using e by simp
    then show ?thesis using big f by simp
  qed
qed

lemma dbl_2p53_facts:
  "\<not> isnan dbl_2p53" "\<not> isnan dbl_neg_2p53"
  "dbl_key dbl_2p53 = 1076 * 2 ^ 52" "dbl_key dbl_neg_2p53 = - (1076 * 2 ^ 52)"
  by (simp_all add: isnan_def dbl_2p53_def dbl_neg_2p53_def dbl_key_def dbl_sign_def
      dbl_mag_def dbl_expo_def dbl_mant_def)

lemma dbl_zero_facts:
  "\<not> isnan 0" "dbl_key 0 = 0" "double_trunc_mag 0 = 0" "\<not> dbl_sign 0"
  by (simp_all add: isnan_def dbl_key_def dbl_sign_def dbl_mag_def dbl_expo_def dbl_mant_def
      double_trunc_mag_def)

lemma NapiToValue_double_of_int64:
  assumes "- (2 ^ 53) \<le> sint i" "sint i \<le> 2 ^ 53"
  shows "NapiToValue (JNumber (double_of_int64 i)) = VInt i"
proof (cases "sint i = 0")
  case True
  then have "(word_of_int (sint i) :: int64) = word_of_int 0" by simp
  then have "i = 0" by simp
  then show ?thesis
    by (simp add: double_of_int64_def dbl_2p53_facts dbl_zero_facts double_le_def
        double_eq_def int64_of_double_def)
next
  case False
  define n where "n = nat \<bar>sint i\<bar>"
  have n: "0 < n" "n \<le> 2 ^ 53" using False assms by (simp_all add: n_def)
  obtain q e where r: "round_to_53 n = (q, e)" by (cases "round_to_53 n")
  define d where "d = mk_double (sint i < 0) (e + 1023) (q - 2 ^ 52)"
  have d: "double_of_int64 i = d"
    using n r False by (simp add: double_of_int64_def Let_def n_def [symmetric] d_def)
  note t = trunc_of_rounded [OF n r, of "sint i < 0", folded d_def]
  have key: "\<bar>dbl_key d\<bar> \<le> 1076 * 2 ^ 52"
    using t(4) by (simp add: dbl_key_def)
  have "int64_of_double d = word_of_int (sint i)"
    using t(1,2) by (auto simp: int64_of_double_def n_def)
  then have rt: "int64_of_double d = i" by simp
  have "double_le dbl_neg_2p53 d" "double_le d dbl_2p53"
    using key t(3) by (simp_all add: double_le_def dbl_2p53_facts)
  moreover have "double_eq (double_of_int64 (int64_of_double d)) d"
    using t(3) by (simp add: rt d double_eq_def)
  ultimately show ?thesis
    by (simp add: d rt)
qed

lemma dbl_mag_split: "dbl_mag d = dbl_expo d * 2 ^ 52 + dbl_mant d"
proof -
  have "unat d mod (2 ^ 52 * 2048) = 2 ^ 52 * (unat d div 2 ^ 52 mod 2048) + unat d mod 2 ^ 52"
    by (rule mod_mult2_eq)
  then show ?thesis
    by (simp add: dbl_mag_def dbl_expo_def dbl_mant_def)
qed

lemma dbl_mant_less: "dbl_mant d < 2 ^ 52"
  by (simp add: dbl_mant_def)

lemma trunc_in_range:
  assumes "double_le dbl_neg_2p53 d" "double_le d dbl_2p53"
  shows "double_trunc_mag d \<le> 2 ^ 53"
proof -
  from assms have "- (1076 * 2 ^ 52) \<le> dbl_key d" "dbl_key d \<le> 1076 * 2 ^ 52"
    by (simp_all add: double_le_def dbl_2p53_facts)
  then have "\<bar>dbl_key d\<bar> \<le> 1076 * 2 ^ 52"
    by linarith
  then have "dbl_mag d \<le> 1076 * 2 ^ 52"
    by (simp add: dbl_key_def split: if_splits)
  then have le: "dbl_expo d * 2 ^ 52 + dbl_mant d \<le> 1076 * 2 ^ 52"
    by (simp add: dbl_mag_split)
  have e: "dbl_expo d \<le> 1076"
  proof (rule ccontr)
    assume "\<not> dbl_expo d \<le> 1076"
    then have "1077 \<le> dbl_expo d" by simp
    then have "1077 * 2 ^ 52 \<le> dbl_expo d * (2::nat) ^ 52" by (rule mult_le_mono1)
    with le show False by simp
  qed
  have m: "dbl_mant d < 2 ^ 52" by (rule dbl_mant_less)
  consider "dbl_expo d < 1023" | "1023 \<le> dbl_expo d" "dbl_expo d < 1075"
    | "dbl_expo d = 1075" | "dbl_expo d = 1076"
    using e by linarith
  then show ?thesis
  proof cases
    case 1
    then show ?thesis by (simp add: double_trunc_mag_def)
  next
    case 2
    have "(2 ^ 52 + dbl_mant d) div 2 ^ (1075 - dbl_expo d) \<le> 2 ^ 52 + dbl_mant d"
      by (rule div_le_dividend)
    also have "\<dots> \<le> 2 ^ 53" using m by simp
    finally have "(2 ^ 52 + dbl_mant d) div 2 ^ (1075 - dbl_expo d) \<le> 2 ^ 53" .
    with 2 show ?thesis by (simp add: double_trunc_mag_def Let_def)
  next
    case 3
    with m show ?thesis by (simp add: double_trunc_mag_def Let_def)
  next
    case 4
    with le have "dbl_mant d = 0" by simp
    with 4 show ?thesis by (simp add: double_trunc_mag_def Let_def)
  qed
qed

lemma sint_small: "\<bar>t\<bar> \<le> 2 ^ 53 \<Longrightarrow> sint (word_of_int t :: int64) = t"
  by (simp add: int_word_sint)

lemma NapiToValue_VInt_D:
  assumes "NapiToValue (JNumber d) = VInt i"
  shows "- (2 ^ 53) \<le> sint i \<and> sint i \<le> 2 ^ 53 \<and> double_eq (double_of_int64 i) d"
proof -
  from assms have r: "double_le dbl_neg_2p53 d" "double_le d dbl_2p53"
    and i: "i = int64_of_double d" and eq: "double_eq (double_of_int64 i) d"
    by (auto simp: Let_def split: if_splits)
  define t where "t = (if dbl_sign d then - int (double_trunc_mag d) else int (double_trunc_mag d))"
  have "\<bar>t\<bar> \<le> 2 ^ 53" using trunc_in_range [OF r] by (simp add: t_def)
  moreover have "i = word_of_int t" by (simp add: i int64_of_double_def t_def)
  ultimately have "sint i = t" "- (2 ^ 53) \<le> t" "t \<le> 2 ^ 53"
    by (simp_all add: sint_small)
  with eq show ?thesis by simp
qed

lemma NapiToValue_nan: "isnan d \<Longrightarrow> NapiToValue (JNumber d) = VFloat d"
  by (simp add: double_le_def)

subsection \<open>Evaluating the codec on concrete input\<close>

lemma four_eq: "(4::nat) = Suc (Suc (Suc (Suc 0)))"
  by simp

lemma eight_eq: "(8::nat) = Suc (Suc (Suc (Suc (Suc (Suc (Suc (Suc 0)))))))"
  by simp

lemma u32_unfold:
  "u32 n = [of_nat (n div 256 div 256 div 256 mod 256), of_nat (n div 256 div 256 mod 256),
            of_nat (n div 256 mod 256), of_nat (n mod 256)]"
  unfolding u32_def four_eq by simp

lemma be64_unfold:
  "be64 w =
     [of_nat (unat w div 256 div 256 div 256 div 256 div 256 div 256 div 256 mod 256),
      of_nat (unat w div 256 div 256 div 256 div 256 div 256 div 256 mod 256),
      of_nat (unat w div 256 div 256 div 256 div 256 div 256 mod 256),
      of_nat (unat w div 256 div 256 div 256 div 256 mod 256),
      of_nat (unat w div 256 div 256 div 256 mod 256),
      of_nat (unat w div 256 div 256 mod 256),
      of_nat (unat w div 256 mod 256),
      of_nat (unat w mod 256)]"
  unfolding be64_def eight_eq by simp

lemma decode_value_numeral:
  "decode_value max_str dict (numeral k) off [] = decode_failure ''unexpected end of input'' off"
  "decode_value max_str dict (numeral k) off (tag # rest) =
     (if tag = 0x10 then
        (case read_count (off + 1) rest of
           Inl e \<Rightarrow> Inl e
         | Inr (n, off', rest') \<Rightarrow>
             container_result VArray (decode_elements max_str dict (pred_numeral k) n off' rest'))
      else if tag = 0x11 then
        (case read_count (off + 1) rest of
           Inl e \<Rightarrow> Inl e
         | Inr (n, off', rest') \<Rightarrow>
             container_result VObject (decode_pairs max_str dict (pred_numeral k) n None off' rest'))
      else decode_scalar max_str tag off rest)"
  using decode_value.simps(2) [of max_str dict "pred_numeral k" off]
    decode_value.simps(3) [of max_str dict "pred_numeral k" off tag rest]
  by (simp_all only: numeral_eq_Suc [symmetric])

lemma decode_elements_numeral:
  "decode_elements max_str dict d (numeral k) off bs =
     (case decode_value max_str dict d off bs of
        Inl e \<Rightarrow> Inl e
      | Inr (v, off', bs') \<Rightarrow> cons_result v (decode_elements max_str dict d (pred_numeral k) off' bs'))"
  using decode_elements.simps(2) [of max_str dict d "pred_numeral k" off bs]
  by (simp only: numeral_eq_Suc [symmetric])

lemma decode_pairs_numeral:
  "decode_pairs max_str dict d (numeral k) prev off bs =
     (case read_key_index dict prev off bs of
        Inl e \<Rightarrow> Inl e
      | Inr (idx, off', bs') \<Rightarrow>
          (case decode_value max_str dict d off' bs' of
             Inl e \<Rightarrow> Inl e
           | Inr (v, off2, bs2) \<Rightarrow>
               cons_result (dict ! idx, v)
                 (decode_pairs max_str dict d (pred_numeral k) (Some idx) off2 bs2)))"
  using decode_pairs.simps(2) [of max_str dict d "pred_numeral k" prev off bs]
  by (simp only: numeral_eq_Suc [symmetric])

lemma decode_dictionary_numeral:
  "decode_dictionary max_str (numeral k) off bs =
     (case read_u32 off bs of
        Inl e \<Rightarrow> Inl e
      | Inr (l, off', bs') \<Rightarrow>
          if max_str < l then decode_failure ''dictionary key too long'' off
          else
            (case read_string l off' bs' of
               Inl e \<Rightarrow> Inl e
             | Inr (k', off2, bs2) \<Rightarrow>
                 (case decode_dictionary max_str (pred_numeral k) off2 bs2 of
                    Inl e \<Rightarrow> Inl e
                  | Inr (ks, off3, bs3) \<Rightarrow> Inr ((k', off) # ks, off3, bs3))))"
  using decode_dictionary.simps(2) [of max_str "pred_numeral k" off bs]
  by (simp only: numeral_eq_Suc [symmetric])

lemmas enc_defs = koda_encode_def build_dictionary_def max_list_def magic_def format_version_def
  u32_unfold be64_unfold valid_utf8_def is_cont_def second_ok_def utf8_bytes_def byte_of_char_def
  encode_failure_def

lemmas dec_defs = koda_decode_def magic_def format_version_def read_u32_def read_u64_def
  read_count_def read_key_index_def read_string_def cons_result_def container_result_def
  decode_scalar_def decode_failure_def be_nat_def decode_value_numeral decode_elements_numeral
  decode_pairs_numeral decode_dictionary_numeral string_of_bytes_def
  char_of_byte_def is_cont_def second_ok_def

lemmas codec_eval = enc_defs dec_defs char_of_def less_char_def less_eq_char_def bit_Suc_0_iff

lemmas native_eval = NativeEncode_def NativeDecode_def size_option_def napi_error_def
  js_object_of_def js_set_def is_array_index_def index_value_def is_digit_def host_nan_def


lemmas dbl_eval = double_of_int64_def round_to_53_def bitlen.simps mk_double_def
  int64_of_double_def double_trunc_mag_def dbl_expo_def dbl_mant_def dbl_sign_def dbl_mag_def
  dbl_key_def isnan_def double_le_def double_eq_def dbl_2p53_def dbl_neg_2p53_def

subsection \<open>The loader and the entry points\<close>

lemma loadNative_Loaded:
  "loadNative rq (Loaded r) u p = (r, Loaded r)"
  by (simp add: loadNative_def)

lemma loadNative_result:
  "\<exists>r. loadNative rq c u p = (r, Loaded r)"
  by (cases c)
    (auto simp: loadNative_def Let_def split: option.splits prod.splits)

lemma loadNative_Init:
  assumes "rq u p = Some (Init core)"
  shows "loadNative rq Unset u p = (Some (addon core), Loaded (Some (addon core)))"
  using assms by (simp add: loadNative_def Init_def addon_def Let_def)

lemma encode_on_addon:
  "encode_on (Some (addon core)) js v options =
     NativeEncode (core_encode core) v (opt_field options e_maxDepth)"
  by (simp add: encode_on_def addon_def)

lemma decodeSync_on_addon:
  "decodeSync_on (Some (addon core)) js buffer options =
     rethrow_as_KodaDecodeError
       (NativeDecode (core_decode core) buffer (opt_field options d_maxDepth)
          (opt_field options maxDictionarySize) (opt_field options maxStringLength))"
  by (simp add: decodeSync_on_def addon_def)

lemmas addon_eval = encode_on_addon decodeSync_on_addon opt_field_def
  rethrow_as_KodaDecodeError_def new_KodaDecodeError_def

lemma NapiToValue_nullify:
  "NapiToValue (nullify v) = NapiToValue v"
  by (induction v rule: nullify.induct) auto

text \<open>
  C8. A host input that is \<^verbatim>\<open>undefined\<close>, or that is none of null, boolean, number, string,
  array and object, is converted to the Null variant: with the addon loaded, \<^verbatim>\<open>encode\<close>
  returns for it exactly what it returns for \<^verbatim>\<open>null\<close>, namely what the core encoder makes of
  \<open>VNull\<close>, and no error of its own is raised for the unsupported kind. The same holds for
  such inputs nested inside arrays and objects.
\<close>

theorem encode_undefined_is_null:
  "NapiToValue JUndefined = VNull \<and> NapiToValue JOther = VNull \<and>
   encode_on (Some (addon core)) js JUndefined options =
     encode_on (Some (addon core)) js JNull options \<and>
   encode_on (Some (addon core)) js JOther options =
     encode_on (Some (addon core)) js JNull options \<and>
   encode_on (Some (addon core)) js JNull options =
     (case core_encode core VNull (size_option 256 (opt_field options e_maxDepth)) of
        Inl e \<Rightarrow> Inl (napi_error e)
      | Inr buf \<Rightarrow> Inr buf) \<and>
   encode_on (Some (addon core)) js (nullify v) options =
     encode_on (Some (addon core)) js v options"
  by (simp add: encode_on_addon NativeEncode_def NapiToValue_nullify)

text \<open>
  The claim C9 fails on the code where it says that every \<^verbatim>\<open>stringify\<close> call uses the
  same backend. The module has loaded a binding; \<^verbatim>\<open>stringify\<close> without options runs the
  binding's serializer, \<^verbatim>\<open>stringify\<close> with \<^verbatim>\<open>{indent: 2}\<close> runs the JavaScript serializer.
\<close>

theorem stringify_indent_uses_fallback:
  "stringify
     \<lparr>req = (\<lambda>u p. None), import_meta_url = ''file:///a/dist/index.js'',
      addon_path = ''/a/build/Release/koda_js.node''\<rparr>
     \<lparr>parseFast = (\<lambda>t po. Inr JNull), stringifyText = (\<lambda>v so. Inr ''javascript''),
      encodeBinary = (\<lambda>v eo. Inr []), decodeBinary = (\<lambda>b dopt. Inr JNull)\<rparr>
     (Loaded (Some \<lparr>nb_parse = (\<lambda>t d. Inr JNull), nb_stringify = (\<lambda>v. Inr ''native''),
                    nb_encode = (\<lambda>v d. Inr []), nb_decode = (\<lambda>b d n l. Inr JNull)\<rparr>))
     JNull None =
     (Inr ''native'',
      Loaded (Some \<lparr>nb_parse = (\<lambda>t d. Inr JNull), nb_stringify = (\<lambda>v. Inr ''native''),
                    nb_encode = (\<lambda>v d. Inr []), nb_decode = (\<lambda>b d n l. Inr JNull)\<rparr>)) \<and>
   stringify
     \<lparr>req = (\<lambda>u p. None), import_meta_url = ''file:///a/dist/index.js'',
      addon_path = ''/a/build/Release/koda_js.node''\<rparr>
     \<lparr>parseFast = (\<lambda>t po. Inr JNull), stringifyText = (\<lambda>v so. Inr ''javascript''),
      encodeBinary = (\<lambda>v eo. Inr []), decodeBinary = (\<lambda>b dopt. Inr JNull)\<rparr>
     (Loaded (Some \<lparr>nb_parse = (\<lambda>t d. Inr JNull), nb_stringify = (\<lambda>v. Inr ''native''),
                    nb_encode = (\<lambda>v d. Inr []), nb_decode = (\<lambda>b d n l. Inr JNull)\<rparr>))
     JNull (Some \<lparr>indent = Some (IndentNumber 2), newline = None\<rparr>) =
     (Inr ''javascript'',
      Loaded (Some \<lparr>nb_parse = (\<lambda>t d. Inr JNull), nb_stringify = (\<lambda>v. Inr ''native''),
                    nb_encode = (\<lambda>v d. Inr []), nb_decode = (\<lambda>b d n l. Inr JNull)\<rparr>))"
  by (simp add: stringify_def getNative_def loadNative_def stringify_on_def no_indent_def
      opt_field_def)

text \<open>
  C9, amended. \<^verbatim>\<open>loadNative\<close> is memoized: a call made on the cache that any earlier call
  left returns that call's result and leaves the cache as it is, whatever its arguments
  and whatever \<^verbatim>\<open>require\<close> would answer now. Every later \<^verbatim>\<open>parse\<close>, \<^verbatim>\<open>encode\<close> and
  \<^verbatim>\<open>decodeSync\<close> of the module runs the binding's function when the first call found a
  binding, and the JavaScript function when it found none. A later \<^verbatim>\<open>stringify\<close> runs the
  binding's serializer only when a binding was found and no indent is asked for; with an
  indent it runs the JavaScript serializer on either backend.
\<close>

theorem loadNative_memoized:
  "loadNative rq' (snd (loadNative rq c u p)) u' p' = loadNative rq c u p \<and>
   getNative env' (snd (getNative env c)) = getNative env c \<and>
   parse env' js (snd (getNative env c)) text po =
     ((case fst (getNative env c) of
         Some nb \<Rightarrow> rethrow_as_KodaParseError (nb_parse nb text (opt_field po p_maxDepth))
       | None \<Rightarrow> parseFast js text po), snd (getNative env c)) \<and>
   encode env' js (snd (getNative env c)) v eo =
     ((case fst (getNative env c) of
         Some nb \<Rightarrow> nb_encode nb v (opt_field eo e_maxDepth)
       | None \<Rightarrow> encodeBinary js v eo), snd (getNative env c)) \<and>
   decodeSync env' js (snd (getNative env c)) buffer dopt =
     ((case fst (getNative env c) of
         Some nb \<Rightarrow>
           rethrow_as_KodaDecodeError
             (nb_decode nb buffer (opt_field dopt d_maxDepth)
                (opt_field dopt maxDictionarySize) (opt_field dopt maxStringLength))
       | None \<Rightarrow> decodeBinary js buffer dopt), snd (getNative env c)) \<and>
   stringify env' js (snd (getNative env c)) v so =
     ((case fst (getNative env c) of
         Some nb \<Rightarrow> if no_indent so then nb_stringify nb v else stringifyText js v so
       | None \<Rightarrow> stringifyText js v so), snd (getNative env c))"
proof -
  have memo: "loadNative rq' (snd (loadNative rq c u p)) u' p' = loadNative rq c u p"
    for rq' rq c u p u' p'
  proof -
    obtain r where r: "loadNative rq c u p = (r, Loaded r)"
      using loadNative_result by blast
    then show ?thesis by (simp add: loadNative_Loaded)
  qed
  have g: "getNative env' (snd (getNative env c)) = getNative env c"
    unfolding getNative_def by (rule memo)
  show ?thesis
    using g
    by (simp add: memo parse_def stringify_def encode_def decodeSync_def split_beta
        parse_on_def stringify_on_def encode_on_def decodeSync_on_def)
qed

text \<open>
  The addon is not built: the first call finds nothing and caches \<^verbatim>\<open>null\<close>; a second call,
  made after the addon has appeared under another path, still returns \<^verbatim>\<open>null\<close>.
\<close>

theorem loadNative_memoized_witness:
  "\<forall>core. loadNative (\<lambda>u p. Some (Init core))
      (snd (loadNative (\<lambda>u p. None) Unset ''file:///a/dist/index.js'' ''/a/build/Release/koda_js.node''))
      ''file:///b/dist/index.js'' ''/b/build/Release/koda_js.node'' = (None, Loaded None)"
proof
  fix core
  show "loadNative (\<lambda>u p. Some (Init core))
      (snd (loadNative (\<lambda>u p. None) Unset ''file:///a/dist/index.js'' ''/a/build/Release/koda_js.node''))
      ''file:///b/dist/index.js'' ''/b/build/Release/koda_js.node'' = (None, Loaded None)"
    using loadNative_memoized
      [of "\<lambda>u p. Some (Init core)" "\<lambda>u p. None" Unset
          "''file:///a/dist/index.js''" "''/a/build/Release/koda_js.node''"
          "''file:///b/dist/index.js''" "''/b/build/Release/koda_js.node''"]
    by (simp add: loadNative_def)
qed

subsection \<open>The decode worker\<close>

lemma doDecode_eq_decodeSync_returned:
  "returned (doDecode native js buffer options) =
     returned (decodeSync_on native js buffer options)"
  by (cases native)
    (auto simp: doDecode_def decodeSync_on_def rethrow_as_KodaDecodeError_def
      split: sum.splits)

text \<open>
  C5. \<^verbatim>\<open>decode\<close> and \<^verbatim>\<open>decodeSync\<close> on the same backend: the promise resolves to a value
  exactly when \<^verbatim>\<open>decodeSync\<close> returns that value, and is rejected exactly when
  \<^verbatim>\<open>decodeSync\<close> throws.
\<close>

theorem decode_async_sync_equivalent:
  "settled (decode_on native js job buffer options) =
     returned (decodeSync_on native js buffer options)"
proof -
  have "settled (decode_on native js job buffer options) =
          returned (doDecode native js buffer options)"
    by (simp add: decode_on_def decodeAsync_def on_message_def split: sum.splits)
  then show ?thesis
    by (simp add: doDecode_eq_decodeSync_returned)
qed

text \<open>
  C10. When a decode job fails in the worker with an Error object, the message posted
  back is the job id and the error's message string, nothing else: the class and the
  byte offset of the error do not appear in it. With the addon loaded the posted string
  is the \<^verbatim>\<open>what()\<close> of the core's exception.
\<close>

theorem worker_posts_message_only:
  "(doDecode binding js (msg_buffer msg) (msg_options msg) = Inl (Thrown e) \<longrightarrow>
      on_message binding js msg = MessageOutError (msg_id msg) (message e)) \<and>
   (core_decode core (msg_buffer msg)
        (size_option 256 (opt_field (msg_options msg) d_maxDepth))
        (size_option 65536 (opt_field (msg_options msg) maxDictionarySize))
        (size_option 1000000 (opt_field (msg_options msg) maxStringLength)) = Inl ex \<longrightarrow>
      on_message (Some (addon core)) js msg = MessageOutError (msg_id msg) (what ex))"
  by (simp add: on_message_def doDecode_def addon_def NativeDecode_def napi_error_def)

text \<open>
  An instance: the worker runs the addon over the decoder of the specification and
  receives an empty buffer. The decoder's failure knows the offset 0; the posted message
  holds the job id and the text only.
\<close>

theorem worker_posts_message_only_witness:
  "\<forall>prs str enc js.
     doDecode (Some (addon \<lparr>core_parse = prs, core_stringify = str,
         core_encode = enc, core_decode = koda_decode\<rparr>)) js [] None =
       Inl (Thrown \<lparr>err_class = PlainError, message = ''input shorter than the header'',
                     byteOffset = None\<rparr>) \<and>
     on_message (Some (addon \<lparr>core_parse = prs, core_stringify = str,
         core_encode = enc, core_decode = koda_decode\<rparr>)) js
       \<lparr>msg_id = 7, msg_buffer = [], msg_options = None\<rparr> =
       MessageOutError 7 ''input shorter than the header''"
proof (intro allI)
  fix prs str enc js
  let ?core = "\<lparr>core_parse = prs, core_stringify = str,
         core_encode = enc, core_decode = koda_decode\<rparr>"
  let ?e = "\<lparr>err_class = PlainError, message = ''input shorter than the header'',
         byteOffset = None\<rparr>"
  let ?msg = "\<lparr>msg_id = 7, msg_buffer = [], msg_options = None\<rparr>"
  have d: "koda_decode [] 256 65536 1000000 =
      Inl \<lparr>what = ''input shorter than the header'', at_byte = Some 0\<rparr>"
    by (simp add: codec_eval)
  then have 1: "doDecode (Some (addon ?core)) js [] None = Inl (Thrown ?e)"
    by (simp add: doDecode_def addon_def NativeDecode_def napi_error_def opt_field_def
        size_option_def)
  from worker_posts_message_only [of "Some (addon ?core)" js ?msg ?e] 1
  have "on_message (Some (addon ?core)) js ?msg =
       MessageOutError 7 ''input shorter than the header''"
    by simp
  with 1 show "doDecode (Some (addon ?core)) js [] None = Inl (Thrown ?e) \<and>
     on_message (Some (addon ?core)) js ?msg =
       MessageOutError 7 ''input shorter than the header''"
    by blast
qed

subsection \<open>Text input\<close>

text \<open>
  C7. With the addon loaded, \<^verbatim>\<open>parse\<close> hands the binding the text and \<^verbatim>\<open>maxDepth\<close> only:
  the result does not depend on \<^verbatim>\<open>maxInputLength\<close>, so no input is rejected for its
  length. Without the addon the options reach \<^verbatim>\<open>parseFast\<close> unchanged.
\<close>

theorem parse_native_ignores_maxInputLength:
  "parse_on (Some nb) js text (Some \<lparr>p_maxDepth = d, maxInputLength = m\<rparr>) =
     parse_on (Some nb) js text (Some \<lparr>p_maxDepth = d, maxInputLength = None\<rparr>) \<and>
   parse_on (Some (addon core)) js text (Some \<lparr>p_maxDepth = d, maxInputLength = m\<rparr>) =
     (case core_parse core text (size_option 256 d) of
        Inl e \<Rightarrow> Inl (new_KodaParseError (what e))
      | Inr v \<Rightarrow> Inr (ValueToNapi v)) \<and>
   parse_on None js text options = parseFast js text options"
  by (simp add: parse_on_def opt_field_def addon_def NativeParse_def
      rethrow_as_KodaParseError_def napi_error_def new_KodaParseError_def
      split: sum.splits)

subsection \<open>Numbers across the binding\<close>

text \<open>
  The claim C3 fails on the code: the host has one number type, and \<^verbatim>\<open>NapiToValue\<close> decides
  the variant from the number's value. The object \<open>{x: Float 1.0}\<close> and the object
  \<open>{x: Int 1}\<close> reach \<^verbatim>\<open>encode\<close> as the same host object and are encoded to the same bytes,
  with tag 0x04.
\<close>

theorem float_one_encoded_as_int:
  "NativeEncode koda_encode (ValueToNapi (VObject [(''x'', VFloat 0x3FF0000000000000)])) None =
     Inr [0x4B, 0x4F, 0x44, 0x41, 0x01, 0, 0, 0, 1, 0, 0, 0, 1, 0x78,
          0x11, 0, 0, 0, 1, 0, 0, 0, 0, 0x04, 0, 0, 0, 0, 0, 0, 0, 1] \<and>
   NativeEncode koda_encode (ValueToNapi (VObject [(''x'', VInt 1)])) None =
     Inr [0x4B, 0x4F, 0x44, 0x41, 0x01, 0, 0, 0, 1, 0, 0, 0, 1, 0x78,
          0x11, 0, 0, 0, 1, 0, 0, 0, 0, 0x04, 0, 0, 0, 0, 0, 0, 0, 1]"
  by (simp add: native_eval dbl_eval enc_defs)

text \<open>
  C3, as amended. With the addon loaded, \<^verbatim>\<open>encode\<close> passes a host number to the core encoder
  as Int exactly when the number equals an integer of magnitude at most 2^53, and as
  Float, unchanged, otherwise. A Float whose value is such an integer is therefore
  encoded as that Int; an Int tag is never given to a number that is not integral.
\<close>

theorem number_classification:
  "(- (2 ^ 53) \<le> sint i \<and> sint i \<le> 2 ^ 53 \<longrightarrow>
      encode_on (Some (addon core)) js (ValueToNapi (VFloat (double_of_int64 i))) options =
        (case core_encode core (VInt i) (size_option 256 (opt_field options e_maxDepth)) of
           Inl e \<Rightarrow> Inl (napi_error e)
         | Inr buf \<Rightarrow> Inr buf)) \<and>
   (NapiToValue (JNumber d) = VInt j \<longrightarrow>
      - (2 ^ 53) \<le> sint j \<and> sint j \<le> 2 ^ 53 \<and> double_eq (double_of_int64 j) d) \<and>
   (NapiToValue (JNumber d) \<noteq> VInt (int64_of_double d) \<longrightarrow> NapiToValue (JNumber d) = VFloat d)"
proof -
  have a: "NapiToValue (JNumber (double_of_int64 i)) = VInt i"
    if "- (2 ^ 53) \<le> sint i \<and> sint i \<le> 2 ^ 53"
    using that by (simp add: NapiToValue_double_of_int64 del: NapiToValue.simps)
  have b: "encode_on (Some (addon core)) js (ValueToNapi (VFloat (double_of_int64 i))) options =
        (case core_encode core (VInt i) (size_option 256 (opt_field options e_maxDepth)) of
           Inl e \<Rightarrow> Inl (napi_error e)
         | Inr buf \<Rightarrow> Inr buf)"
    if "- (2 ^ 53) \<le> sint i \<and> sint i \<le> 2 ^ 53"
    using a [OF that] NapiToValue_nan [of "double_of_int64 i"]
    by (auto simp: encode_on_addon NativeEncode_def simp del: NapiToValue.simps)
  have c: "- (2 ^ 53) \<le> sint j \<and> sint j \<le> 2 ^ 53 \<and> double_eq (double_of_int64 j) d"
    if "NapiToValue (JNumber d) = VInt j"
    using that by (rule NapiToValue_VInt_D)
  have d: "NapiToValue (JNumber d) = VFloat d"
    if "NapiToValue (JNumber d) \<noteq> VInt (int64_of_double d)"
    using that by (simp add: Let_def split: if_splits)
  from b c d show ?thesis by blast
qed

text \<open>The numbers 1.0 and 2.0 are classified Int, the number 1.5 stays Float.\<close>

theorem number_classification_witness:
  "\<forall>prs str dec js.
     encode_on (Some (addon \<lparr>core_parse = prs, core_stringify = str,
         core_encode = koda_encode, core_decode = dec\<rparr>)) js
       (ValueToNapi (VFloat (double_of_int64 1))) None =
       Inr [0x4B, 0x4F, 0x44, 0x41, 0x01, 0, 0, 0, 0, 0x04, 0, 0, 0, 0, 0, 0, 0, 1] \<and>
     NapiToValue (JNumber 0x4000000000000000) = VInt 2 \<and>
     double_eq (double_of_int64 2) 0x4000000000000000 \<and>
     NapiToValue (JNumber 0x3FF8000000000000) = VFloat 0x3FF8000000000000"
proof (intro allI)
  fix prs str dec js
  let ?core = "\<lparr>core_parse = prs, core_stringify = str,
         core_encode = koda_encode, core_decode = dec\<rparr>"
  have a: "- (2 ^ 53) \<le> sint (1 :: int64) \<and> sint (1 :: int64) \<le> 2 ^ 53" by simp
  have b: "NapiToValue (JNumber 0x4000000000000000) = VInt 2"
    by (simp add: dbl_eval)
  have c: "NapiToValue (JNumber 0x3FF8000000000000) \<noteq> VInt (int64_of_double 0x3FF8000000000000)"
    by (simp add: dbl_eval)
  have e: "koda_encode (VInt 1) 256 =
      Inr [0x4B, 0x4F, 0x44, 0x41, 0x01, 0, 0, 0, 0, 0x04, 0, 0, 0, 0, 0, 0, 0, 1]"
    by (simp add: enc_defs)
  from number_classification [of 1 ?core js None "0x4000000000000000" 2] a b e
  have 1: "encode_on (Some (addon ?core)) js (ValueToNapi (VFloat (double_of_int64 1))) None =
       Inr [0x4B, 0x4F, 0x44, 0x41, 0x01, 0, 0, 0, 0, 0x04, 0, 0, 0, 0, 0, 0, 0, 1]"
    "double_eq (double_of_int64 2) 0x4000000000000000"
    by (simp_all add: opt_field_def size_option_def del: ValueToNapi.simps NapiToValue.simps)
  from number_classification [of 1 ?core js None "0x3FF8000000000000" 2] c
  have 2: "NapiToValue (JNumber 0x3FF8000000000000) = VFloat 0x3FF8000000000000"
    by blast
  from 1 2 b
  show "encode_on (Some (addon ?core)) js (ValueToNapi (VFloat (double_of_int64 1))) None =
       Inr [0x4B, 0x4F, 0x44, 0x41, 0x01, 0, 0, 0, 0, 0x04, 0, 0, 0, 0, 0, 0, 0, 1] \<and>
     NapiToValue (JNumber 0x4000000000000000) = VInt 2 \<and>
     double_eq (double_of_int64 2) 0x4000000000000000 \<and>
     NapiToValue (JNumber 0x3FF8000000000000) = VFloat 0x3FF8000000000000"
    by blast
qed

text \<open>
  The claim C4 fails on the code for magnitudes above 2^53: \<^verbatim>\<open>ValueToNapi\<close> casts the Int to
  a double. The Int 2^53 + 1 comes back as the Int 2^53, and the Int 2^60 comes back as a
  Float.
\<close>

theorem big_int_not_preserved:
  "NativeEncode koda_encode (ValueToNapi (VInt (2 ^ 53 + 1))) None =
     Inr [0x4B, 0x4F, 0x44, 0x41, 0x01, 0, 0, 0, 0, 0x04, 0, 0x20, 0, 0, 0, 0, 0, 0] \<and>
   koda_decode [0x4B, 0x4F, 0x44, 0x41, 0x01, 0, 0, 0, 0, 0x04, 0, 0x20, 0, 0, 0, 0, 0, 0]
     256 65536 1000000 = Inr (VInt (2 ^ 53)) \<and>
   NativeEncode koda_encode (ValueToNapi (VInt (2 ^ 60))) None =
     Inr [0x4B, 0x4F, 0x44, 0x41, 0x01, 0, 0, 0, 0, 0x05, 0x43, 0xB0, 0, 0, 0, 0, 0, 0] \<and>
   koda_decode [0x4B, 0x4F, 0x44, 0x41, 0x01, 0, 0, 0, 0, 0x05, 0x43, 0xB0, 0, 0, 0, 0, 0, 0]
     256 65536 1000000 = Inr (VFloat 0x43B0000000000000)"
  by (simp add: native_eval dbl_eval codec_eval)

text \<open>
  C4, as amended. For every Int \<open>i\<close> with \<open>-2^53 \<le> i \<le> 2^53\<close>: the host number that stands
  for \<open>i\<close> is classified as the Int \<open>i\<close> again, \<^verbatim>\<open>encode\<close> with the addon loaded hands the
  core encoder the Int \<open>i\<close>, and when the core decoder returns the Int \<open>i\<close>, \<^verbatim>\<open>decodeSync\<close>
  returns that same host number.
\<close>

theorem int_within_2p53_preserved:
  assumes "- (2 ^ 53) \<le> sint i" "sint i \<le> 2 ^ 53"
  shows "NapiToValue (ValueToNapi (VInt i)) = VInt i \<and>
     encode_on (Some (addon core)) js (ValueToNapi (VInt i)) options =
       (case core_encode core (VInt i) (size_option 256 (opt_field options e_maxDepth)) of
          Inl e \<Rightarrow> Inl (napi_error e)
        | Inr buf \<Rightarrow> Inr buf) \<and>
     (core_decode core buffer (size_option 256 (opt_field dopts d_maxDepth))
          (size_option 65536 (opt_field dopts maxDictionarySize))
          (size_option 1000000 (opt_field dopts maxStringLength)) = Inr (VInt i) \<longrightarrow>
        decodeSync_on (Some (addon core)) js buffer dopts = Inr (ValueToNapi (VInt i)))"
proof -
  have k: "NapiToValue (JNumber (double_of_int64 i)) = VInt i"
    using assms by (rule NapiToValue_double_of_int64)
  then show ?thesis
    by (simp add: encode_on_addon decodeSync_on_addon NativeEncode_def NativeDecode_def
        rethrow_as_KodaDecodeError_def del: NapiToValue.simps)
qed

text \<open>The bound itself, 2^53, through the codec of the specification.\<close>

theorem int_within_2p53_preserved_witness:
  "\<forall>prs str js.
     NapiToValue (ValueToNapi (VInt (2 ^ 53))) = VInt (2 ^ 53) \<and>
     encode_on (Some (addon \<lparr>core_parse = prs, core_stringify = str,
         core_encode = koda_encode, core_decode = koda_decode\<rparr>)) js
       (ValueToNapi (VInt (2 ^ 53))) None =
       Inr [0x4B, 0x4F, 0x44, 0x41, 0x01, 0, 0, 0, 0, 0x04, 0, 0x20, 0, 0, 0, 0, 0, 0] \<and>
     decodeSync_on (Some (addon \<lparr>core_parse = prs, core_stringify = str,
         core_encode = koda_encode, core_decode = koda_decode\<rparr>)) js
       [0x4B, 0x4F, 0x44, 0x41, 0x01, 0, 0, 0, 0, 0x04, 0, 0x20, 0, 0, 0, 0, 0, 0] None =
       Inr (ValueToNapi (VInt (2 ^ 53)))"
proof (intro allI)
  fix prs str js
  let ?core = "\<lparr>core_parse = prs, core_stringify = str,
         core_encode = koda_encode, core_decode = koda_decode\<rparr>"
  let ?bs = "[0x4B, 0x4F, 0x44, 0x41, 0x01, 0, 0, 0, 0, 0x04, 0, 0x20, 0, 0, 0, 0, 0, 0] :: byte list"
  have r: "- (2 ^ 53) \<le> sint (2 ^ 53 :: int64)" "sint (2 ^ 53 :: int64) \<le> 2 ^ 53"
    by simp_all
  have e: "koda_encode (VInt (2 ^ 53)) 256 = Inr ?bs"
    by (simp add: enc_defs)
  have d: "koda_decode ?bs 256 65536 1000000 = Inr (VInt (2 ^ 53))"
    by (simp add: codec_eval)
  from int_within_2p53_preserved [OF r, of ?core js None ?bs None] e d
  show "NapiToValue (ValueToNapi (VInt (2 ^ 53))) = VInt (2 ^ 53) \<and>
     encode_on (Some (addon ?core)) js (ValueToNapi (VInt (2 ^ 53))) None = Inr ?bs \<and>
     decodeSync_on (Some (addon ?core)) js ?bs None = Inr (ValueToNapi (VInt (2 ^ 53)))"
    by (simp add: opt_field_def size_option_def del: ValueToNapi.simps NapiToValue.simps)
qed

subsection \<open>Decode errors\<close>

text \<open>
  C6. With the addon loaded, \<^verbatim>\<open>decodeSync\<close> returns the converted Value when the core
  decoder returns one. When the core decoder rejects the input, the error thrown is a
  \<^verbatim>\<open>KodaDecodeError\<close> rebuilt from the message of the decoder's exception alone: it has no
  byte offset, whatever offset the decoder knew. Without the addon, \<^verbatim>\<open>decodeSync\<close> is
  the JavaScript decoder, whose result or error passes unchanged.
\<close>

theorem decodeSync_native_error_has_no_offset:
  "decodeSync_on (Some (addon core)) js buffer options =
     (case core_decode core buffer (size_option 256 (opt_field options d_maxDepth))
             (size_option 65536 (opt_field options maxDictionarySize))
             (size_option 1000000 (opt_field options maxStringLength)) of
        Inl ex \<Rightarrow>
          Inl (Thrown \<lparr>err_class = KodaDecodeError, message = what ex, byteOffset = None\<rparr>)
      | Inr v \<Rightarrow> Inr (ValueToNapi v)) \<and>
   decodeSync_on None js buffer options = decodeBinary js buffer options"
proof
  show "decodeSync_on (Some (addon core)) js buffer options =
     (case core_decode core buffer (size_option 256 (opt_field options d_maxDepth))
             (size_option 65536 (opt_field options maxDictionarySize))
             (size_option 1000000 (opt_field options maxStringLength)) of
        Inl ex \<Rightarrow>
          Inl (Thrown \<lparr>err_class = KodaDecodeError, message = what ex, byteOffset = None\<rparr>)
      | Inr v \<Rightarrow> Inr (ValueToNapi v))"
    by (cases "core_decode core buffer (size_option 256 (opt_field options d_maxDepth))
             (size_option 65536 (opt_field options maxDictionarySize))
             (size_option 1000000 (opt_field options maxStringLength))")
      (simp_all add: decodeSync_on_addon NativeDecode_def napi_error_def
        rethrow_as_KodaDecodeError_def new_KodaDecodeError_def del: ValueToNapi.simps)
  show "decodeSync_on None js buffer options = decodeBinary js buffer options"
    by (simp add: decodeSync_on_def)
qed

text \<open>
  The failing input: the empty buffer. The decoder of the specification rejects it at
  offset 0; the error that leaves \<^verbatim>\<open>decodeSync\<close> has no byte offset. (The second equation
  is the body of \<^verbatim>\<open>decodeSync\<close> for the loaded addon, see \<open>decodeSync_on_addon\<close>.)
\<close>

theorem decode_error_without_offset:
  "koda_decode [] 256 65536 1000000 =
     Inl \<lparr>what = ''input shorter than the header'', at_byte = Some 0\<rparr> \<and>
   rethrow_as_KodaDecodeError (NativeDecode koda_decode [] None None None) =
     Inl (Thrown \<lparr>err_class = KodaDecodeError, message = ''input shorter than the header'',
                   byteOffset = None\<rparr>)"
  by (simp add: native_eval codec_eval rethrow_as_KodaDecodeError_def new_KodaDecodeError_def)

subsection \<open>Big-endian fields\<close>

lemma length_be_bytes [simp]: "length (be_bytes k n) = k"
  by (induction k arbitrary: n) auto

lemma be_nat_snoc: "be_nat (xs @ [b]) = be_nat xs * 256 + unat b"
  by (simp add: be_nat_def)

lemma unat_byte_of_mod: "unat (of_nat (n mod 256) :: byte) = n mod 256"
  by (simp add: unat_of_nat)

lemma be_nat_be_bytes: "be_nat (be_bytes k n) = n mod 256 ^ k"
proof (induction k arbitrary: n)
  case 0
  show ?case by (simp add: be_nat_def)
next
  case (Suc k)
  have "n mod (256 * 256 ^ k) = 256 * (n div 256 mod 256 ^ k) + n mod 256"
    by (rule mod_mult2_eq)
  then show ?case
    by (simp add: be_nat_snoc Suc.IH unat_byte_of_mod)
qed

lemma length_u32 [simp]: "length (u32 n) = 4"
  by (simp add: u32_def)

lemma length_be64 [simp]: "length (be64 w) = 8"
  by (simp add: be64_def)

lemma read_u32_u32:
  assumes "n < 2 ^ 32"
  shows "read_u32 off (u32 n @ rest) = Inr (n, off + 4, rest)"
proof -
  have "be_nat (u32 n) = n mod 256 ^ 4" by (simp add: u32_def be_nat_be_bytes)
  also have "\<dots> = n" using assms by simp
  finally show ?thesis by (simp add: read_u32_def)
qed

lemma read_u64_be64: "read_u64 off (be64 w @ rest) = Inr (w, off + 8, rest)"
proof -
  have "unat w < 2 ^ 64" using unsigned_less [of w] by simp
  then have "unat w mod 256 ^ 8 = unat w" by simp
  then have "be_nat (be64 w) = unat w" by (simp add: be64_def be_nat_be_bytes)
  then show ?thesis by (simp add: read_u64_def)
qed

lemma of_char_less_256: "of_char c < (256 :: nat)"
  by (cases c) (simp add: of_char_Char)

subsection \<open>Strings and dictionary indices\<close>

lemma unat_byte_of_char: "unat (byte_of_char c) = of_char c"
  using of_char_less_256 [of c] by (simp add: byte_of_char_def unat_of_nat)

lemma map_unat_utf8_bytes: "map unat (utf8_bytes s) = map of_char s"
  by (simp add: utf8_bytes_def unat_byte_of_char)

lemma string_of_utf8_bytes: "string_of_bytes (utf8_bytes s) = s"
  by (induction s) (simp_all add: string_of_bytes_def utf8_bytes_def char_of_byte_def
      unat_byte_of_char)

lemma length_utf8_bytes [simp]: "length (utf8_bytes s) = length s"
  by (simp add: utf8_bytes_def)

lemma read_string_utf8_bytes:
  assumes "valid_utf8 s"
  shows "read_string (length s) off (utf8_bytes s @ rest) = Inr (s, off + length s, rest)"
  using assms
  by (simp add: read_string_def valid_utf8_def map_unat_utf8_bytes string_of_utf8_bytes)

lemma encode_value_nonempty: "encode_value dict v \<noteq> []"
  by (cases v) auto

lemma length_concat_ge:
  assumes "\<And>x. x \<in> set xs \<Longrightarrow> f x \<noteq> []"
  shows "length xs \<le> length (concat (map f xs))"
  using assms
proof (induction xs)
  case Nil
  show ?case by simp
next
  case (Cons x xs)
  then have "f x \<noteq> []" by simp
  then have "1 \<le> length (f x)" by (cases "f x") auto
  with Cons show ?case by simp
qed

lemma key_index_less: "k \<in> set dict \<Longrightarrow> key_index dict k < length dict"
  by (induction dict) auto

lemma nth_key_index: "k \<in> set dict \<Longrightarrow> dict ! key_index dict k = k"
  by (induction dict) auto

lemma key_index_mono:
  assumes "sorted dict" "distinct dict" "a \<in> set dict" "b \<in> set dict" "a < b"
  shows "key_index dict a < key_index dict b"
  using assms
proof (induction dict)
  case Nil
  then show ?case by simp
next
  case (Cons x xs)
  show ?case
  proof (cases "x = a")
    case True
    with Cons.prems show ?thesis by auto
  next
    case False
    with Cons.prems have a: "a \<in> set xs" by simp
    have "x \<noteq> b"
    proof
      assume "x = b"
      with Cons.prems(1) a have "b \<le> a" by simp
      with Cons.prems(5) show False by simp
    qed
    with Cons.prems have b: "b \<in> set xs" by simp
    from Cons.IH [OF _ _ a b Cons.prems(5)] Cons.prems(1,2)
    have "key_index xs a < key_index xs b" by simp
    with False \<open>x \<noteq> b\<close> show ?thesis by simp
  qed
qed

lemma max_list_ge: "x \<in> set xs \<Longrightarrow> x \<le> max_list xs"
  by (induction xs) (auto simp: max_list_def max_def)

lemma depth_pos: "0 < depth v"
  by (cases v) auto

subsection \<open>Reading back a sequence of encoded items\<close>

lemma decode_elements_encode:
  assumes "\<And>v off rest. v \<in> set vs \<Longrightarrow>
      decode_value max_str dict d off (encode_value dict v @ rest) =
        Inr (canon v, off + length (encode_value dict v), rest)"
  shows "decode_elements max_str dict d (length vs) off (concat (map (encode_value dict) vs) @ rest) =
      Inr (map canon vs, off + length (concat (map (encode_value dict) vs)), rest)"
  using assms
proof (induction vs arbitrary: off)
  case Nil
  show ?case by simp
next
  case (Cons v vs)
  have "decode_value max_str dict d off (encode_value dict v @ (concat (map (encode_value dict) vs) @ rest)) =
      Inr (canon v, off + length (encode_value dict v), concat (map (encode_value dict) vs) @ rest)"
    by (rule Cons.prems) simp
  moreover have "decode_elements max_str dict d (length vs) (off + length (encode_value dict v))
      (concat (map (encode_value dict) vs) @ rest) =
      Inr (map canon vs,
           off + length (encode_value dict v) + length (concat (map (encode_value dict) vs)), rest)"
    by (rule Cons.IH) (simp add: Cons.prems)
  ultimately show ?case
    by (simp add: cons_result_def add.assoc)
qed

lemma decode_pairs_encode:
  assumes dict: "sorted dict" "distinct dict" "length dict \<le> 2 ^ 32"
    and elems: "\<And>k v off rest. (k, v) \<in> set ps \<Longrightarrow>
      decode_value max_str dict d off (encode_value dict v @ rest) =
        Inr (canon v, off + length (encode_value dict v), rest)"
    and ps: "sorted (map fst ps)" "distinct (map fst ps)" "fst ` set ps \<subseteq> set dict"
    and prev: "\<And>p k. prev = Some p \<Longrightarrow> k \<in> fst ` set ps \<Longrightarrow> p < key_index dict k"
  shows "decode_pairs max_str dict d (length ps) prev off
      (concat (map (\<lambda>(k, v). u32 (key_index dict k) @ encode_value dict v) ps) @ rest) =
      Inr (map (\<lambda>(k, v). (k, canon v)) ps,
           off + length (concat (map (\<lambda>(k, v). u32 (key_index dict k) @ encode_value dict v) ps)),
           rest)"
  using elems ps prev
proof (induction ps arbitrary: prev off)
  case Nil
  show ?case by simp
next
  case (Cons kv ps)
  obtain k v where kv: "kv = (k, v)" by (cases kv)
  let ?enc = "\<lambda>(k, v). u32 (key_index dict k) @ encode_value dict v"
  let ?tail = "concat (map ?enc ps) @ rest"
  have kd: "k \<in> set dict" using Cons.prems(4) by (simp add: kv)
  then have idx: "key_index dict k < length dict" by (rule key_index_less)
  with dict(3) have idx32: "key_index dict k < 2 ^ 32" by simp
  have r: "read_key_index dict prev off (u32 (key_index dict k) @ encode_value dict v @ ?tail) =
      Inr (key_index dict k, off + 4, encode_value dict v @ ?tail)"
  proof -
    have "\<not> (case prev of None \<Rightarrow> False | Some p \<Rightarrow> key_index dict k \<le> p)"
    proof (cases prev)
      case None
      then show ?thesis by simp
    next
      case (Some p)
      then have "p < key_index dict k" by (rule Cons.prems(5)) (simp add: kv)
      with Some show ?thesis by simp
    qed
    with idx show ?thesis
      by (simp add: read_key_index_def read_u32_u32 [OF idx32])
  qed
  have dv: "decode_value max_str dict d (off + 4) (encode_value dict v @ ?tail) =
      Inr (canon v, off + 4 + length (encode_value dict v), ?tail)"
    by (rule Cons.prems(1) [of k v]) (simp add: kv)
  have rec: "decode_pairs max_str dict d (length ps) (Some (key_index dict k))
      (off + 4 + length (encode_value dict v)) ?tail =
      Inr (map (\<lambda>(k, v). (k, canon v)) ps,
           off + 4 + length (encode_value dict v) + length (concat (map ?enc ps)), rest)"
  proof (rule Cons.IH)
    show "decode_value max_str dict d off' (encode_value dict v' @ rest') =
        Inr (canon v', off' + length (encode_value dict v'), rest')"
      if "(k', v') \<in> set ps" for k' v' off' rest'
      using that by (intro Cons.prems(1) [of k' v']) simp
    show "sorted (map fst ps)" "distinct (map fst ps)" "fst ` set ps \<subseteq> set dict"
      using Cons.prems(2,3,4) by simp_all
    show "p < key_index dict k'" if "Some (key_index dict k) = Some p" "k' \<in> fst ` set ps" for p k'
    proof -
      have "k \<le> k'" using Cons.prems(2) that(2) by (auto simp: kv)
      moreover have "k \<noteq> k'" using Cons.prems(3) that(2) by (auto simp: kv)
      ultimately have "k < k'" by simp
      moreover have "k' \<in> set dict" using Cons.prems(4) that(2) by auto
      ultimately have "key_index dict k < key_index dict k'"
        using dict kd by (intro key_index_mono)
      with that(1) show ?thesis by simp
    qed
  qed
  have nth: "dict ! key_index dict k = k" using kd by (rule nth_key_index)
  show ?case
    using r dv rec nth
    by (simp add: kv cons_result_def add.assoc)
qed

subsection \<open>Reading back an encoded value\<close>

lemma distinct_map_fst_sort_key:
  "distinct (map fst (sort_key fst ps)) = distinct (map fst ps)"
proof -
  have "mset (map fst (sort_key fst ps)) = mset (map fst ps)" by simp
  then show ?thesis by (rule mset_eq_imp_distinct_iff)
qed

lemma decode_value_encode_value:
  assumes dict: "sorted dict" "distinct dict" "length dict \<le> 2 ^ 32"
  shows "depth v \<le> d \<Longrightarrow> set (collect_keys v) \<subseteq> set dict \<Longrightarrow> strings_valid v \<Longrightarrow>
     keys_unique v \<Longrightarrow> pair_counts_fit v \<Longrightarrow> lengths_fit v \<Longrightarrow> strings_within max_str v \<Longrightarrow>
     decode_value max_str dict d off (encode_value dict v @ rest) =
       Inr (canon v, off + length (encode_value dict v), rest)"
proof (induction v arbitrary: d off rest)
  case VNull
  then obtain d' where "d = Suc d'" by (cases d) auto
  then show ?case by (simp add: decode_scalar_def)
next
  case (VBool b)
  then obtain d' where "d = Suc d'" by (cases d) auto
  then show ?case by (simp add: decode_scalar_def)
next
  case (VInt i)
  then obtain d' where "d = Suc d'" by (cases d) auto
  then show ?case by (simp add: decode_scalar_def read_u64_be64)
next
  case (VFloat x)
  then obtain d' where "d = Suc d'" by (cases d) auto
  then show ?case by (simp add: decode_scalar_def read_u64_be64)
next
  case (VString s)
  then obtain d' where d: "d = Suc d'" by (cases d) auto
  from VString.prems have "length s < 2 ^ 32" "valid_utf8 s" "\<not> max_str < length s"
    by simp_all
  then show ?case
    by (simp add: d decode_scalar_def read_u32_u32 read_string_utf8_bytes)
next
  case (VArray arr)
  then obtain d' where d: "d = Suc d'" by (cases d) auto
  let ?body = "concat (map (encode_value dict) arr)"
  from VArray.prems have n: "length arr < 2 ^ 32" by simp
  have len: "length arr \<le> length (?body @ rest)"
    using length_concat_ge [of arr "encode_value dict"] by (simp add: encode_value_nonempty)
  have cnt: "read_count (off + 1) (u32 (length arr) @ ?body @ rest) =
      Inr (length arr, off + 1 + 4, ?body @ rest)"
    using len by (simp add: read_count_def read_u32_u32 [OF n])
  have el: "decode_value max_str dict d' off' (encode_value dict v @ rest') =
      Inr (canon v, off' + length (encode_value dict v), rest')"
    if "v \<in> set arr" for v off' rest'
  proof (rule VArray.IH [OF that])
    have "depth v \<le> max_list (map depth arr)" using that by (intro max_list_ge) simp
    with VArray.prems(1) show "depth v \<le> d'" by (simp add: d)
    show "set (collect_keys v) \<subseteq> set dict" using VArray.prems(2) that by auto
    show "strings_valid v" "keys_unique v" "pair_counts_fit v" "lengths_fit v"
      "strings_within max_str v"
      using VArray.prems(3-7) that by (auto simp: list_all_iff)
  qed
  have "decode_elements max_str dict d' (length arr) (off + 1 + 4) (?body @ rest) =
      Inr (map canon arr, off + 1 + 4 + length ?body, rest)"
    by (rule decode_elements_encode) (rule el)
  with cnt show ?case
    by (simp add: d container_result_def)
next
  case (VObject obj)
  then obtain d' where d: "d = Suc d'" by (cases d) auto
  let ?ps = "sort_key fst obj"
  let ?enc = "\<lambda>(k, v). u32 (key_index dict k) @ encode_value dict v"
  let ?body = "concat (map ?enc ?ps)"
  from VObject.prems have n: "length obj < 2 ^ 32" by simp
  have ne: "?enc p \<noteq> []" for p by (cases p) (simp add: encode_value_nonempty)
  have "length ?ps \<le> length ?body"
    by (rule length_concat_ge) (rule ne)
  then have len: "length obj \<le> length (?body @ rest)" by simp
  have cnt: "read_count (off + 1) (u32 (length obj) @ ?body @ rest) =
      Inr (length obj, off + 1 + 4, ?body @ rest)"
    using len by (simp add: read_count_def read_u32_u32 [OF n])
  have el: "decode_value max_str dict d' off' (encode_value dict v @ rest') =
      Inr (canon v, off' + length (encode_value dict v), rest')"
    if "(k, v) \<in> set ?ps" for k v off' rest'
  proof -
    from that have mem: "(k, v) \<in> set obj" by simp
    show ?thesis
    proof (rule VObject.IH [OF mem])
      show "v \<in> Basic_BNFs.snds (k, v)" by simp
      have "depth v \<le> max_list (map (\<lambda>(k, v). depth v) obj)"
        using mem by (intro max_list_ge) force
      with VObject.prems(1) show "depth v \<le> d'" by (simp add: d)
      show "set (collect_keys v) \<subseteq> set dict" using VObject.prems(2) mem by fastforce
      show "strings_valid v" "keys_unique v" "pair_counts_fit v" "lengths_fit v"
        "strings_within max_str v"
        using VObject.prems(3-7) mem by (auto simp: list_all_iff)
    qed
  qed
  have keys: "fst ` set ?ps \<subseteq> set dict"
    using VObject.prems(2) by fastforce
  have "decode_pairs max_str dict d' (length ?ps) None (off + 1 + 4) (?body @ rest) =
      Inr (map (\<lambda>(k, v). (k, canon v)) ?ps, off + 1 + 4 + length ?body, rest)"
  proof (rule decode_pairs_encode [OF dict])
    show "decode_value max_str dict d' off' (encode_value dict v @ rest') =
        Inr (canon v, off' + length (encode_value dict v), rest')"
      if "(k, v) \<in> set ?ps" for k v off' rest'
      using that by (rule el)
    show "sorted (map fst ?ps)" by simp
    show "distinct (map fst ?ps)"
      using VObject.prems(4) by (simp add: distinct_map_fst_sort_key)
    show "fst ` set ?ps \<subseteq> set dict" by (rule keys)
  qed simp
  with cnt show ?case
    by (simp add: d container_result_def)
qed

subsection \<open>Reading back an encoded document\<close>

lemma decode_dictionary_encode:
  assumes "\<And>k. k \<in> set ks \<Longrightarrow> valid_utf8 k \<and> length k \<le> max_str \<and> length k < 2 ^ 32"
  shows "\<exists>es. decode_dictionary max_str (length ks) off
           (concat (map (\<lambda>k. u32 (length k) @ utf8_bytes k) ks) @ rest) =
           Inr (es, off + length (concat (map (\<lambda>k. u32 (length k) @ utf8_bytes k) ks)), rest) \<and>
         map fst es = ks"
  using assms
proof (induction ks arbitrary: off)
  case Nil
  show ?case by simp
next
  case (Cons k ks)
  let ?tail = "concat (map (\<lambda>k. u32 (length k) @ utf8_bytes k) ks) @ rest"
  from Cons.prems [of k] have k: "valid_utf8 k" "length k \<le> max_str" "length k < 2 ^ 32"
    by simp_all
  from Cons.IH [of "off + 4 + length k"] Cons.prems
  obtain es where es:
    "decode_dictionary max_str (length ks) (off + 4 + length k) ?tail =
       Inr (es, off + 4 + length k +
            length (concat (map (\<lambda>k. u32 (length k) @ utf8_bytes k) ks)), rest)"
    "map fst es = ks"
    by auto
  have "decode_dictionary max_str (length (k # ks)) off
      (concat (map (\<lambda>k. u32 (length k) @ utf8_bytes k) (k # ks)) @ rest) =
      Inr ((k, off) # es,
           off + length (concat (map (\<lambda>k. u32 (length k) @ utf8_bytes k) (k # ks))), rest)"
    using k es(1)
    by (simp add: read_u32_u32 read_string_utf8_bytes add.assoc)
  with es(2) show ?case by simp
qed

lemma first_unsorted_None:
  "sorted (map fst es) \<Longrightarrow> distinct (map fst es) \<Longrightarrow> first_unsorted es = None"
proof (induction es rule: first_unsorted.induct)
  case (1 a b ks)
  then have "fst a \<le> fst b" "fst a \<noteq> fst b" by auto
  then have "fst a < fst b" by simp
  with 1 show ?case by simp
qed simp_all

lemma strings_valid_keys:
  "strings_valid v \<Longrightarrow> k \<in> set (collect_keys v) \<Longrightarrow> valid_utf8 k"
  by (induction v) (fastforce simp: list_all_iff)+

lemma lengths_fit_keys:
  "lengths_fit v \<Longrightarrow> k \<in> set (collect_keys v) \<Longrightarrow> length k < 2 ^ 32"
  by (induction v) (fastforce simp: list_all_iff)+

lemma build_dictionary_props:
  "sorted (build_dictionary v)" "distinct (build_dictionary v)"
  "set (build_dictionary v) = set (collect_keys v)"
  by (simp_all add: build_dictionary_def)

lemma koda_decode_koda_encode:
  assumes enc: "koda_encode v emd = Inr bs"
    and fit: "lengths_fit v"
    and bounds: "within_decode_bounds v max_depth max_dict max_str"
  shows "koda_decode bs max_depth max_dict max_str = Inr (canon v)"
proof -
  let ?dict = "build_dictionary v"
  let ?entries = "concat (map (\<lambda>k. u32 (length k) @ utf8_bytes k) ?dict)"
  from enc have ok: "depth v \<le> emd" "strings_valid v" "keys_unique v" "pair_counts_fit v"
    "length ?dict < 2 ^ 32"
    and bs: "bs = magic @ [format_version] @ u32 (length ?dict) @ ?entries @ encode_value ?dict v"
    by (auto simp: koda_encode_def Let_def encode_failure_def split: if_splits)
  from bounds have b: "depth v \<le> max_depth" "length ?dict \<le> max_dict"
    "\<And>k. k \<in> set ?dict \<Longrightarrow> length k \<le> max_str" "strings_within max_str v"
    by (auto simp: within_decode_bounds_def list_all_iff)
  have keyprops: "valid_utf8 k \<and> length k \<le> max_str \<and> length k < 2 ^ 32" if "k \<in> set ?dict" for k
  proof -
    from that have mem: "k \<in> set (collect_keys v)" by (simp add: build_dictionary_props)
    from strings_valid_keys [OF ok(2) mem] lengths_fit_keys [OF fit mem] b(3) [OF that]
    show ?thesis by simp
  qed
  from decode_dictionary_encode [of ?dict max_str 9 "encode_value ?dict v", OF keyprops]
  obtain es where es:
    "decode_dictionary max_str (length ?dict) 9 (?entries @ encode_value ?dict v) =
       Inr (es, 9 + length ?entries, encode_value ?dict v)"
    "map fst es = ?dict"
    by auto
  have sorted_es: "first_unsorted es = None"
    by (rule first_unsorted_None) (simp_all add: es(2) build_dictionary_props)
  have val: "decode_value max_str ?dict max_depth (9 + length ?entries) (encode_value ?dict v @ []) =
      Inr (canon v, 9 + length ?entries + length (encode_value ?dict v), [])"
    using ok b(1,4) fit
    by (intro decode_value_encode_value) (simp_all add: build_dictionary_props)
  have hdr: "\<not> length bs < 5" "take 4 bs = magic" "bs ! 4 = format_version"
    "drop 5 bs = u32 (length ?dict) @ ?entries @ encode_value ?dict v"
    by (simp_all add: bs magic_def)
  have cnt: "read_u32 5 (u32 (length ?dict) @ ?entries @ encode_value ?dict v) =
      Inr (length ?dict, 9, ?entries @ encode_value ?dict v)"
    using read_u32_u32 [OF ok(5), of 5] by simp
  show ?thesis
    unfolding koda_decode_def
    using hdr cnt b(2) es sorted_es val
    by simp
qed

subsection \<open>Objects of the host\<close>

text \<open>
  \<^verbatim>\<open>obj.Set\<close> treats two property lists with the same keys alike, and the object built
  from pairs with distinct keys holds exactly the pairs whose key is not \<^verbatim>\<open>__proto__\<close>.
\<close>

lemma ValueToNapi_host_object:
  "ValueToNapi (VObject [(''__proto__'', VInt 1)]) = JObject [] \<and>
   ValueToNapi (VObject [(''b'', VNull), (''10'', VNull), (''9'', VNull), (''b'', VBool True)]) =
     JObject [(''9'', JNull), (''10'', JNull), (''b'', JBoolean True)]"
  by (simp add: native_eval)

lemma map_fst_js_replace: "map fst (js_replace ps k v) = map fst ps"
  by (induction ps) auto

lemma js_replace_rel:
  assumes "list_all2 (\<lambda>p q. fst p = fst q \<and> S (snd p) (snd q)) ps qs" "S v w"
  shows "list_all2 (\<lambda>p q. fst p = fst q \<and> S (snd p) (snd q))
           (js_replace ps k v) (js_replace qs k w)"
  using assms(1)
  by (induction rule: list_all2_induct) (auto simp: assms(2))

lemma js_insert_index_rel:
  assumes "list_all2 (\<lambda>p q. fst p = fst q \<and> S (snd p) (snd q)) ps qs" "S v w"
  shows "list_all2 (\<lambda>p q. fst p = fst q \<and> S (snd p) (snd q))
           (js_insert_index ps k v) (js_insert_index qs k w)"
  using assms(1)
  by (induction rule: list_all2_induct) (auto simp: assms(2))

lemma list_all2_map_fst:
  "list_all2 (\<lambda>p q. fst p = fst q \<and> S (snd p) (snd q)) ps qs \<Longrightarrow> map fst ps = map fst qs"
  by (induction rule: list_all2_induct) simp_all

lemma js_set_rel:
  assumes "list_all2 (\<lambda>p q. fst p = fst q \<and> S (snd p) (snd q)) ps qs" "S v w"
  shows "list_all2 (\<lambda>p q. fst p = fst q \<and> S (snd p) (snd q)) (js_set ps k v) (js_set qs k w)"
proof -
  have "map fst ps = map fst qs" using assms(1) by (rule list_all2_map_fst)
  then have "set (map fst ps) = set (map fst qs)" by simp
  then have keys: "fst ` set ps = fst ` set qs" by simp
  consider "k = ''__proto__''"
    | "k \<noteq> ''__proto__''" "k \<in> fst ` set qs"
    | "k \<noteq> ''__proto__''" "k \<notin> fst ` set qs" "is_array_index k"
    | "k \<noteq> ''__proto__''" "k \<notin> fst ` set qs" "\<not> is_array_index k"
    by blast
  then show ?thesis
  proof cases
    case 1
    then show ?thesis using assms(1) by (simp add: js_set_def)
  next
    case 2
    then show ?thesis using js_replace_rel [OF assms] by (simp add: js_set_def keys)
  next
    case 3
    then show ?thesis using js_insert_index_rel [OF assms] by (simp add: js_set_def keys)
  next
    case 4
    have "list_all2 (\<lambda>p q. fst p = fst q \<and> S (snd p) (snd q)) (ps @ [(k, v)]) (qs @ [(k, w)])"
      using assms by (intro list_all2_appendI) simp_all
    with 4 show ?thesis by (simp add: js_set_def keys)
  qed
qed

lemma foldl_js_set_rel:
  assumes "list_all2 (\<lambda>p q. fst p = fst q \<and> S (snd p) (snd q)) xs ys"
    and "list_all2 (\<lambda>p q. fst p = fst q \<and> S (snd p) (snd q)) acc acc'"
  shows "list_all2 (\<lambda>p q. fst p = fst q \<and> S (snd p) (snd q))
           (foldl (\<lambda>obj (k, v). js_set obj k v) acc xs)
           (foldl (\<lambda>obj (k, v). js_set obj k v) acc' ys)"
  using assms
proof (induction arbitrary: acc acc' rule: list_all2_induct)
  case Nil
  then show ?case by simp
next
  case (Cons x xs y ys)
  obtain k v where x: "x = (k, v)" by (cases x)
  obtain k' w where y: "y = (k', w)" by (cases y)
  from Cons.hyps(1) have kk: "k' = k" and S: "S v w" by (simp_all add: x y)
  have "list_all2 (\<lambda>p q. fst p = fst q \<and> S (snd p) (snd q)) (js_set acc k v) (js_set acc' k w)"
    using Cons.prems S by (rule js_set_rel)
  then show ?case
    using Cons.IH by (simp add: x y kk)
qed

lemma js_object_of_rel:
  "list_all2 (\<lambda>p q. fst p = fst q \<and> S (snd p) (snd q)) xs ys \<Longrightarrow>
   list_all2 (\<lambda>p q. fst p = fst q \<and> S (snd p) (snd q)) (js_object_of xs) (js_object_of ys)"
  unfolding js_object_of_def by (rule foldl_js_set_rel) simp_all

lemma js_object_of_map:
  "js_object_of (map (\<lambda>(k, v). (k, f v)) ps) = map (\<lambda>(k, v). (k, f v)) (js_object_of ps)"
proof -
  have "list_all2 (\<lambda>p q. fst p = fst q \<and> snd q = f (snd p)) ps (map (\<lambda>(k, v). (k, f v)) ps)"
    by (simp add: list_all2_map2 list_all2_same case_prod_beta)
  then have "list_all2 (\<lambda>p q. fst p = fst q \<and> snd q = f (snd p))
      (js_object_of ps) (js_object_of (map (\<lambda>(k, v). (k, f v)) ps))"
    by (rule js_object_of_rel)
  then have "list_all2 (\<lambda>p q. q = (case p of (k, v) \<Rightarrow> (k, f v)))
      (js_object_of ps) (js_object_of (map (\<lambda>(k, v). (k, f v)) ps))"
    by (rule list_all2_mono) (auto simp: case_prod_beta prod_eq_iff)
  then show ?thesis
    by (induction rule: list_all2_induct) simp_all
qed

lemma mset_js_insert_index: "mset (js_insert_index ps k v) = add_mset (k, v) (mset ps)"
  by (induction ps) auto

lemma mset_js_set_fresh:
  "k \<notin> fst ` set ps \<Longrightarrow> k \<noteq> ''__proto__'' \<Longrightarrow> mset (js_set ps k v) = add_mset (k, v) (mset ps)"
  by (simp add: js_set_def mset_js_insert_index)

lemma js_set_proto: "js_set ps ''__proto__'' v = ps"
  by (simp add: js_set_def)

lemma mset_foldl_js_set:
  "distinct (map fst ps) \<Longrightarrow> fst ` set acc \<inter> fst ` set ps = {} \<Longrightarrow>
   mset (foldl (\<lambda>obj (k, v). js_set obj k v) acc ps) =
     mset acc + mset (filter (\<lambda>p. fst p \<noteq> ''__proto__'') ps)"
proof (induction ps arbitrary: acc)
  case Nil
  show ?case by simp
next
  case (Cons p ps)
  obtain k v where p: "p = (k, v)" by (cases p)
  from Cons.prems have fresh: "k \<notin> fst ` set acc" and kps: "k \<notin> fst ` set ps"
    and d: "distinct (map fst ps)" and disj: "fst ` set acc \<inter> fst ` set ps = {}"
    by (auto simp: p)
  show ?case
  proof (cases "k = ''__proto__''")
    case True
    then show ?thesis
      using Cons.IH [OF d disj] by (simp add: p js_set_proto)
  next
    case False
    have m: "mset (js_set acc k v) = add_mset (k, v) (mset acc)"
      using fresh False by (rule mset_js_set_fresh)
    then have "set_mset (mset (js_set acc k v)) = set_mset (add_mset (k, v) (mset acc))"
      by simp
    then have "set (js_set acc k v) = insert (k, v) (set acc)" by simp
    then have "fst ` set (js_set acc k v) \<inter> fst ` set ps = {}"
      using disj kps by auto
    from Cons.IH [OF d this] m False show ?thesis by (simp add: p)
  qed
qed

lemma mset_js_object_of:
  "distinct (map fst ps) \<Longrightarrow>
   mset (js_object_of ps) = mset (filter (\<lambda>p. fst p \<noteq> ''__proto__'') ps)"
  using mset_foldl_js_set [of ps "[]"] by (simp add: js_object_of_def)

lemma distinct_js_object_of:
  assumes "distinct (map fst ps)"
  shows "distinct (map fst (js_object_of ps))"
proof -
  have "mset (map fst (js_object_of ps)) = mset (map fst (filter (\<lambda>p. fst p \<noteq> ''__proto__'') ps))"
    using mset_js_object_of [OF assms] by simp
  moreover have "distinct (map fst (filter (\<lambda>p. fst p \<noteq> ''__proto__'') ps))"
    using assms by (rule distinct_map_filter)
  ultimately show ?thesis using mset_eq_imp_distinct_iff by blast
qed

subsection \<open>Canonical values\<close>

lemma isnan_canonical_nan: "isnan canonical_nan"
  by (simp add: isnan_def canonical_nan_def dbl_expo_def dbl_mant_def)

lemma veq_canon: "keys_unique v \<Longrightarrow> veq (canon v) v"
proof (induction v)
  case (VFloat d)
  show ?case by (auto intro!: veq.intros simp: isnan_canonical_nan)
next
  case (VArray arr)
  have "list_all2 veq (map canon arr) arr"
    using VArray by (auto simp: list_all2_map1 list_all2_same list_all_iff)
  then show ?case by (auto intro: veq.intros)
next
  case (VObject obj)
  let ?ps = "sort_key fst obj"
  have el: "veq (canon v) v" if "(k, v) \<in> set obj" for k v
  proof (rule VObject.IH [OF that])
    show "v \<in> Basic_BNFs.snds (k, v)" by simp
    show "keys_unique v" using VObject.prems that by (auto simp: list_all_iff)
  qed
  have 1: "distinct (map fst (map (\<lambda>(k, v). (k, canon v)) ?ps))"
    using VObject.prems by (simp add: comp_def case_prod_beta distinct_map_fst_sort_key)
  have 2: "mset ?ps = mset obj" by simp
  have 3: "list_all2 (\<lambda>p q. fst p = fst q \<and> veq (snd p) (snd q))
      (map (\<lambda>(k, v). (k, canon v)) ?ps) ?ps"
    by (auto simp: list_all2_map1 list_all2_same el)
  show ?case
    unfolding canon.simps by (rule veq_Object [OF 1 2 3])
qed (auto intro: veq.intros)

lemma map_insort_key_fst:
  assumes "\<And>p. fst (g p) = fst p"
  shows "map g (insort_key fst x xs) = insort_key fst (g x) (map g xs)"
  by (induction xs) (simp_all add: assms)

lemma map_sort_key_fst:
  assumes "\<And>p. fst (g p) = fst p"
  shows "map g (sort_key fst xs) = sort_key fst (map g xs)"
  by (induction xs) (simp_all add: map_insort_key_fst [OF assms])

lemma filter_fst_distinct:
  "distinct (map fst l) \<Longrightarrow> k \<in> set l \<Longrightarrow> filter (\<lambda>x. fst k = fst x) l = [k]"
proof (induction l)
  case Nil
  then show ?case by simp
next
  case (Cons p l)
  show ?case
  proof (cases "k = p")
    case True
    have "filter (\<lambda>x. fst p = fst x) l = []"
      using Cons.prems(1) by (auto simp: filter_empty_conv)
    then show ?thesis using True by simp
  next
    case False
    with Cons.prems have kl: "k \<in> set l" by simp
    then have "fst k \<in> fst ` set l" by (rule imageI)
    moreover from Cons.prems(1) have "fst p \<notin> fst ` set l" by simp
    ultimately have "fst k \<noteq> fst p" by metis
    note kl this
    then show ?thesis using Cons by simp
  qed
qed

lemma sort_key_fst_mset:
  assumes "mset ys' = mset ys" "distinct (map fst ys)"
  shows "sort_key fst ys' = sort_key fst ys"
proof (rule properties_for_sort_key [symmetric])
  show "mset (sort_key fst ys') = mset ys" using assms(1) by simp
  show "sorted (map fst (sort_key fst ys'))" by simp
  fix k assume k: "k \<in> set (sort_key fst ys')"
  have "mset (map fst ys') = mset (map fst ys)" using assms(1) by simp
  then have d': "distinct (map fst ys')"
    using assms(2) mset_eq_imp_distinct_iff by blast
  have s: "set ys' = set ys" using assms(1) by (rule mset_eq_setD)
  have "filter (\<lambda>x. fst k = fst x) (sort_key fst ys') = [k]"
    using k d' by (intro filter_fst_distinct) (simp_all add: distinct_map_fst_sort_key)
  moreover have "filter (\<lambda>x. fst k = fst x) ys = [k]"
    using k s assms(2) by (intro filter_fst_distinct) simp_all
  ultimately show "filter (\<lambda>x. fst k = fst x) (sort_key fst ys') = filter (\<lambda>x. fst k = fst x) ys"
    by simp
qed

lemma veq_canon_eq: "veq a b \<Longrightarrow> canon a = canon b"
proof (induction rule: veq.induct)
  case (veq_Float d e)
  then show ?case by auto
next
  case (veq_Array xs ys)
  then have "map canon xs = map canon ys"
    by (induction rule: list_all2_induct) simp_all
  then show ?case by simp
next
  case (veq_Object xs ys' ys)
  let ?g = "\<lambda>(k, v). (k, canon v)"
  have g: "\<And>p. fst (?g p) = fst p" by (simp add: case_prod_beta)
  from veq_Object(3) have fs: "map fst xs = map fst ys'" and m: "map ?g xs = map ?g ys'"
    by (induction rule: list_all2_induct) (auto simp: case_prod_beta)
  have "distinct (map fst ys')" using veq_Object(1) fs by simp
  moreover have "mset (map fst ys') = mset (map fst ys)" using veq_Object(2) by simp
  ultimately have "distinct (map fst ys)" using mset_eq_imp_distinct_iff by blast
  with veq_Object(2) have "sort_key fst ys' = sort_key fst ys" by (rule sort_key_fst_mset)
  then have "map ?g (sort_key fst ys) = map ?g (sort_key fst ys')" by simp
  also have "\<dots> = sort_key fst (map ?g ys')" by (rule map_sort_key_fst [OF g])
  also have "\<dots> = sort_key fst (map ?g xs)" using m by simp
  also have "\<dots> = map ?g (sort_key fst xs)" by (rule map_sort_key_fst [OF g, symmetric])
  finally show ?case by simp
qed simp_all

lemma veq_keys_unique: "veq a b \<Longrightarrow> keys_unique a \<and> keys_unique b"
proof (induction rule: veq.induct)
  case (veq_Array xs ys)
  then have "list_all keys_unique xs \<and> list_all keys_unique ys"
    by (induction rule: list_all2_induct) simp_all
  then show ?case by simp
next
  case (veq_Object xs ys' ys)
  from veq_Object(3) have fs: "map fst xs = map fst ys'"
    and k: "list_all (\<lambda>(k, v). keys_unique v) xs \<and> list_all (\<lambda>(k, v). keys_unique v) ys'"
    by (induction rule: list_all2_induct) (auto simp: case_prod_beta)
  have "distinct (map fst ys')" using veq_Object(1) fs by simp
  moreover have "mset (map fst ys') = mset (map fst ys)" using veq_Object(2) by simp
  ultimately have d: "distinct (map fst ys)" using mset_eq_imp_distinct_iff by blast
  have "set ys' = set ys" using veq_Object(2) by (rule mset_eq_setD)
  with k have "list_all (\<lambda>(k, v). keys_unique v) ys" by (simp add: list_all_iff)
  with k d veq_Object(1) show ?case by simp
qed simp_all

lemma max_list_Max: "max_list xs = Max (insert 0 (set xs))"
proof (induction xs)
  case Nil
  show ?case by (simp add: max_list_def)
next
  case (Cons x xs)
  have "max_list (x # xs) = max x (max_list xs)" by (simp add: max_list_def)
  also have "\<dots> = max x (Max (insert 0 (set xs)))" by (simp only: Cons.IH)
  also have "\<dots> = Max (insert x (insert 0 (set xs)))" by simp
  finally show ?case by (simp add: insert_commute)
qed

lemma max_list_cong_set: "set xs = set ys \<Longrightarrow> max_list xs = max_list ys"
  by (simp add: max_list_Max)

lemma depth_canon: "depth (canon v) = depth v"
proof (induction v)
  case (VArray arr)
  have "map (depth \<circ> canon) arr = map depth arr"
    by (rule map_cong) (simp_all add: VArray)
  then show ?case by (simp del: map_eq_conv)
next
  case (VObject obj)
  have el: "depth (canon v) = depth v" if "(k, v) \<in> set obj" for k v
    by (rule VObject.IH [OF that]) simp
  have "map ((\<lambda>(k, v). depth v) \<circ> (\<lambda>(k, v). (k, canon v))) (sort_key fst obj) =
      map (\<lambda>(k, v). depth v) (sort_key fst obj)"
    by (rule map_cong) (auto simp: el)
  moreover have "set (map (\<lambda>(k, v). depth v) (sort_key fst obj)) =
      set (map (\<lambda>(k, v). depth v) obj)" by simp
  ultimately show ?case by (simp add: max_list_cong_set)
qed simp_all

lemma strings_valid_canon: "strings_valid (canon v) = strings_valid v"
proof (induction v)
  case (VArray arr)
  then show ?case by (simp add: list_all_iff)
next
  case (VObject obj)
  have el: "strings_valid (canon v) = strings_valid v" if "(k, v) \<in> set obj" for k v
    by (rule VObject.IH [OF that]) simp
  show ?case by (auto simp: list_all_iff el)
qed simp_all

lemma pair_counts_fit_canon: "pair_counts_fit (canon v) = pair_counts_fit v"
proof (induction v)
  case (VArray arr)
  then show ?case by (simp add: list_all_iff)
next
  case (VObject obj)
  have el: "pair_counts_fit (canon v) = pair_counts_fit v" if "(k, v) \<in> set obj" for k v
    by (rule VObject.IH [OF that]) simp
  show ?case by (auto simp: list_all_iff el)
qed simp_all

lemma keys_unique_canon: "keys_unique (canon v) = keys_unique v"
proof (induction v)
  case (VArray arr)
  then show ?case by (simp add: list_all_iff)
next
  case (VObject obj)
  have el: "keys_unique (canon v) = keys_unique v" if "(k, v) \<in> set obj" for k v
    by (rule VObject.IH [OF that]) simp
  have "map fst (map (\<lambda>(k, v). (k, canon v)) (sort_key fst obj)) = map fst (sort_key fst obj)"
    by (simp add: comp_def case_prod_beta)
  then have "distinct (map fst (map (\<lambda>(k, v). (k, canon v)) (sort_key fst obj))) =
      distinct (map fst obj)"
    by (simp only: distinct_map_fst_sort_key)
  moreover have "list_all (\<lambda>(k, v). keys_unique v) (map (\<lambda>(k, v). (k, canon v)) (sort_key fst obj)) =
      list_all (\<lambda>(k, v). keys_unique v) obj"
    by (auto simp: list_all_iff el)
  ultimately show ?case by (simp del: distinct_map)
qed simp_all

lemma set_collect_keys_canon: "set (collect_keys (canon v)) = set (collect_keys v)"
proof (induction v)
  case (VArray arr)
  then show ?case by simp
next
  case (VObject obj)
  have el: "set (collect_keys (canon v)) = set (collect_keys v)" if "(k, v) \<in> set obj" for k v
    by (rule VObject.IH [OF that]) simp
  show ?case by (auto simp: el)
qed simp_all

lemma build_dictionary_cong: 
  "set (collect_keys a) = set (collect_keys b) \<Longrightarrow> build_dictionary a = build_dictionary b"
  unfolding build_dictionary_def
  by (simp only: sorted_list_of_set_sort_remdups [symmetric])

lemma encode_value_canon: "encode_value dict (canon v) = encode_value dict v"
proof (induction v)
  case (VFloat d)
  show ?case by (simp add: isnan_canonical_nan)
next
  case (VArray arr)
  have "map (encode_value dict \<circ> canon) arr = map (encode_value dict) arr"
    by (rule map_cong) (simp_all add: VArray)
  then show ?case by (simp del: map_eq_conv)
next
  case (VObject obj)
  let ?g = "\<lambda>(k, v). (k, canon v)"
  let ?e = "\<lambda>(k, v). u32 (key_index dict k) @ encode_value dict v"
  have el: "encode_value dict (canon v) = encode_value dict v" if "(k, v) \<in> set obj" for k v
    by (rule VObject.IH [OF that]) simp
  have g: "\<And>p. fst (?g p) = fst p" by (simp add: case_prod_beta)
  have "sort_key fst (map ?g (sort_key fst obj)) = map ?g (sort_key fst (sort_key fst obj))"
    by (rule map_sort_key_fst [OF g, symmetric])
  also have "sort_key fst (sort_key fst obj) = sort_key fst obj"
    by (rule sort_key_id_if_sorted) simp
  finally have s: "sort_key fst (map ?g (sort_key fst obj)) = map ?g (sort_key fst obj)" .
  have "map (?e \<circ> ?g) (sort_key fst obj) = map ?e (sort_key fst obj)"
    by (rule map_cong) (auto simp: el)
  then show ?case by (simp add: s del: map_eq_conv)
qed simp_all

lemma koda_encode_canon: "koda_encode (canon v) md = koda_encode v md"
proof -
  have "build_dictionary (canon v) = build_dictionary v"
    by (rule build_dictionary_cong) (rule set_collect_keys_canon)
  then show ?thesis
    unfolding koda_encode_def
    by (simp only: depth_canon strings_valid_canon keys_unique_canon pair_counts_fit_canon
        encode_value_canon)
qed

lemma koda_encode_veq: "veq a b \<Longrightarrow> koda_encode a md = koda_encode b md"
  using koda_encode_canon [of a md] koda_encode_canon [of b md] veq_canon_eq [of a b] by simp

subsection \<open>The host conversions and structural equality\<close>

lemma veq_number_refl: "veq (NapiToValue (JNumber d)) (NapiToValue (JNumber d))"
  by (auto simp: Let_def intro: veq.intros)

lemma ValueToNapi_VObject_host:
  "NapiToValue (ValueToNapi (VObject ps)) =
     VObject (map (\<lambda>(k, v). (k, NapiToValue (ValueToNapi v))) (js_object_of ps))"
proof -
  have "js_object_of (map (\<lambda>(k, v). (k, ValueToNapi v)) ps) =
      map (\<lambda>(k, v). (k, ValueToNapi v)) (js_object_of ps)"
    by (rule js_object_of_map)
  then show ?thesis by (simp add: comp_def case_prod_beta)
qed

lemma mset_js_object_of_cong:
  assumes "mset ys' = mset ys" "distinct (map fst ys)"
  shows "mset (js_object_of ys') = mset (js_object_of ys)"
proof -
  have "mset (map fst ys') = mset (map fst ys)" using assms(1) by simp
  then have d': "distinct (map fst ys')"
    using assms(2) mset_eq_imp_distinct_iff by blast
  have "mset (filter (\<lambda>p. fst p \<noteq> ''__proto__'') ys') =
      mset (filter (\<lambda>p. fst p \<noteq> ''__proto__'') ys)"
    using assms(1) by simp
  then show ?thesis
    by (simp only: mset_js_object_of [OF d'] mset_js_object_of [OF assms(2)])
qed

lemma veq_host:
  "veq a b \<Longrightarrow> veq (NapiToValue (ValueToNapi a)) (NapiToValue (ValueToNapi b))"
proof (induction rule: veq.induct)
  case (veq_Int i)
  show ?case unfolding ValueToNapi.simps by (rule veq_number_refl)
next
  case (veq_Float d e)
  then show ?case
  proof
    assume "d = e"
    then show ?thesis unfolding ValueToNapi.simps by (simp only: veq_number_refl)
  next
    assume "isnan d \<and> isnan e"
    then show ?thesis
      unfolding ValueToNapi.simps by (simp only: if_True veq_number_refl)
  qed
next
  case (veq_Array xs ys)
  then have "list_all2 veq (map (NapiToValue \<circ> ValueToNapi) xs) (map (NapiToValue \<circ> ValueToNapi) ys)"
    by (induction rule: list_all2_induct) simp_all
  then show ?case by (simp add: veq.veq_Array)
next
  case (veq_Object xs ys' ys)
  let ?G = "\<lambda>(k, v). (k, NapiToValue (ValueToNapi v))"
  let ?R = "\<lambda>p q. fst p = fst q \<and> veq (NapiToValue (ValueToNapi (snd p))) (NapiToValue (ValueToNapi (snd q)))"
  from veq_Object(3) have fs: "map fst xs = map fst ys'" and l: "list_all2 ?R xs ys'"
    by (induction rule: list_all2_induct) auto
  have "distinct (map fst ys')" using veq_Object(1) fs by simp
  moreover have "mset (map fst ys') = mset (map fst ys)" using veq_Object(2) by simp
  ultimately have dy: "distinct (map fst ys)" using mset_eq_imp_distinct_iff by blast
  have 1: "distinct (map fst (map ?G (js_object_of xs)))"
    using distinct_js_object_of [OF veq_Object(1)] by (simp add: comp_def case_prod_beta)
  have "mset (js_object_of ys') = mset (js_object_of ys)"
    using veq_Object(2) dy by (rule mset_js_object_of_cong)
  then have 2: "mset (map ?G (js_object_of ys')) = mset (map ?G (js_object_of ys))" by simp
  have "list_all2 ?R (js_object_of xs) (js_object_of ys')"
    using l by (rule js_object_of_rel)
  then have 3: "list_all2 (\<lambda>p q. fst p = fst q \<and> veq (snd p) (snd q))
      (map ?G (js_object_of xs)) (map ?G (js_object_of ys'))"
    by (simp add: list_all2_map1 list_all2_map2 case_prod_beta)
  show ?case
    unfolding ValueToNapi_VObject_host by (rule veq.veq_Object [OF 1 2 3])
qed (simp_all add: veq.intros)

lemma host_round:
  "host_stable v \<Longrightarrow> keys_unique v \<Longrightarrow> plain_keys v \<Longrightarrow>
   veq (NapiToValue (ValueToNapi v)) v"
proof (induction v)
  case (VInt i)
  then have "NapiToValue (JNumber (double_of_int64 i)) = VInt i"
    by (simp add: NapiToValue_double_of_int64 del: NapiToValue.simps)
  then show ?case by (simp add: veq.intros del: NapiToValue.simps)
next
  case (VFloat d)
  show ?case
  proof (cases "isnan d")
    case True
    have "isnan host_nan" using isnan_canonical_nan by (simp add: host_nan_def canonical_nan_def)
    then have "NapiToValue (JNumber host_nan) = VFloat host_nan" by (rule NapiToValue_nan)
    then show ?thesis
      using True \<open>isnan host_nan\<close> by (simp add: veq.veq_Float del: NapiToValue.simps)
  next
    case False
    then show ?thesis using VFloat by (simp add: veq.veq_Float del: NapiToValue.simps)
  qed
next
  case (VArray arr)
  have "list_all2 veq (map (NapiToValue \<circ> ValueToNapi) arr) arr"
    using VArray by (auto simp: list_all2_map1 list_all2_same list_all_iff)
  then show ?case by (simp add: veq.veq_Array)
next
  case (VObject obj)
  let ?G = "\<lambda>(k, v). (k, NapiToValue (ValueToNapi v))"
  from VObject.prems have d: "distinct (map fst obj)" by simp
  have "filter (\<lambda>p. fst p \<noteq> ''__proto__'') obj = obj"
    using VObject.prems(3) by (auto simp: list_all_iff plain_key_def intro!: filter_True)
  with mset_js_object_of [OF d] have m: "mset (js_object_of obj) = mset obj" by simp
  then have s: "set (js_object_of obj) = set obj" by (rule mset_eq_setD)
  have el: "veq (NapiToValue (ValueToNapi v)) v" if "(k, v) \<in> set obj" for k v
  proof (rule VObject.IH [OF that])
    show "v \<in> Basic_BNFs.snds (k, v)" by simp
    show "host_stable v" "keys_unique v" "plain_keys v"
      using VObject.prems that by (auto simp: list_all_iff)
  qed
  have 1: "distinct (map fst (map ?G (js_object_of obj)))"
    using distinct_js_object_of [OF d] by (simp add: comp_def case_prod_beta)
  have 3: "list_all2 (\<lambda>p q. fst p = fst q \<and> veq (snd p) (snd q))
      (map ?G (js_object_of obj)) (js_object_of obj)"
    by (auto simp: list_all2_map1 list_all2_same s el)
  show ?case
    unfolding ValueToNapi_VObject_host by (rule veq.veq_Object [OF 1 m 3])
qed (simp_all add: veq.intros)

subsection \<open>The entry points over the codec of the specification\<close>

lemma encode_on_spec_core:
  "encode_on (Some (addon (spec_core prs str))) js h eopts =
     NativeEncode koda_encode h (opt_field eopts e_maxDepth)"
  by (simp add: encode_on_addon spec_core_def)

lemma decodeSync_on_spec_core:
  "decodeSync_on (Some (addon (spec_core prs str))) js bs dopts =
     rethrow_as_KodaDecodeError
       (NativeDecode koda_decode bs (opt_field dopts d_maxDepth)
          (opt_field dopts maxDictionarySize) (opt_field dopts maxStringLength))"
  by (simp add: decodeSync_on_addon spec_core_def)

subsection \<open>Round trip\<close>

text \<open>
  The claim C1 fails on the code: the Float \<open>-0.0\<close> is integral, so it is encoded as the
  Int 0, and \<^verbatim>\<open>decodeSync\<close> returns the number \<open>+0\<close>.
\<close>

theorem negative_zero_not_round_tripped:
  "ValueToNapi (VFloat 0x8000000000000000) = JNumber 0x8000000000000000 \<and>
   NativeEncode koda_encode (ValueToNapi (VFloat 0x8000000000000000)) None =
     Inr [0x4B, 0x4F, 0x44, 0x41, 0x01, 0, 0, 0, 0, 0x04, 0, 0, 0, 0, 0, 0, 0, 0] \<and>
   koda_decode [0x4B, 0x4F, 0x44, 0x41, 0x01, 0, 0, 0, 0, 0x04, 0, 0, 0, 0, 0, 0, 0, 0]
     256 65536 1000000 = Inr (VInt 0) \<and>
   rethrow_as_KodaDecodeError (NativeDecode koda_decode
     [0x4B, 0x4F, 0x44, 0x41, 0x01, 0, 0, 0, 0, 0x04, 0, 0, 0, 0, 0, 0, 0, 0] None None None) =
     Inr (JNumber 0)"
  by (simp add: native_eval dbl_eval codec_eval rethrow_as_KodaDecodeError_def)

text \<open>
  C1, amended. Modelled from the spec: the codec behind the addon is the one of sections 4.3
  and 4.4. Take a Value that the host can carry unchanged (\<^const>\<open>host_stable\<close>: no
  integral Float, every Int within \<open>2^53\<close> in magnitude), with distinct keys in every
  object, no key that is \<^verbatim>\<open>__proto__\<close> or holds a NUL character (\<^const>\<open>plain_keys\<close>),
  well-formed UTF-8 in every string and key, lengths that fit
  the \<open>u32\<close> fields, and within the decoder's bounds (depth, dictionary size, and the
  length of every key and String value). If \<^verbatim>\<open>encode\<close> returns bytes for it,
  \<^verbatim>\<open>decodeSync\<close> on these bytes returns the host value that \<^verbatim>\<open>ValueToNapi\<close> makes of the
  canonical form of the Value (pairs sorted by key, every NaN canonical; the host lists
  the keys in its own order). The canonical form is structurally equal to the Value, and
  the host value returned and the host value encoded are read by the binding as
  structurally equal Values.
\<close>

theorem binary_round_trip:
  assumes "host_stable v" "keys_unique v" "plain_keys v" "strings_valid v" "lengths_fit v"
    and "encode_on (Some (addon (spec_core prs str))) js (ValueToNapi v) eopts = Inr bs"
    and "within_decode_bounds v (size_option 256 (opt_field dopts d_maxDepth))
           (size_option 65536 (opt_field dopts maxDictionarySize))
           (size_option 1000000 (opt_field dopts maxStringLength))"
  shows "decodeSync_on (Some (addon (spec_core prs str))) js bs dopts =
           Inr (ValueToNapi (canon v)) \<and>
         veq (canon v) v \<and>
         veq (NapiToValue (ValueToNapi (canon v))) (NapiToValue (ValueToNapi v))"
proof -
  have "veq (NapiToValue (ValueToNapi v)) v"
    using assms(1,2,3) by (rule host_round)
  then have same: "koda_encode (NapiToValue (ValueToNapi v)) md = koda_encode v md" for md
    by (rule koda_encode_veq)
  from assms(6) have "koda_encode v (size_option 256 (opt_field eopts e_maxDepth)) = Inr bs"
    by (simp add: encode_on_spec_core NativeEncode_def same split: sum.splits
        del: ValueToNapi.simps NapiToValue.simps)
  then have "koda_decode bs (size_option 256 (opt_field dopts d_maxDepth))
           (size_option 65536 (opt_field dopts maxDictionarySize))
           (size_option 1000000 (opt_field dopts maxStringLength)) = Inr (canon v)"
    using assms(5,7) by (rule koda_decode_koda_encode)
  then have 1: "decodeSync_on (Some (addon (spec_core prs str))) js bs dopts =
           Inr (ValueToNapi (canon v))"
    by (simp add: decodeSync_on_spec_core NativeDecode_def rethrow_as_KodaDecodeError_def
        del: ValueToNapi.simps)
  have 2: "veq (canon v) v"
    using assms(2) by (rule veq_canon)
  then have 3: "veq (NapiToValue (ValueToNapi (canon v))) (NapiToValue (ValueToNapi v))"
    by (rule veq_host)
  from 1 2 3 show ?thesis by blast
qed

text \<open>
  An object with unsorted keys, two of them array indices, a nested array, an Int, a
  Float and a string. The bytes carry the keys sorted by their bytes (\<open>10\<close>, \<open>9\<close>, \<open>b\<close>); the
  host lists the keys of the returned object as \<open>9\<close>, \<open>10\<close>, \<open>b\<close>.
\<close>

theorem binary_round_trip_witness:
  "\<forall>prs str js.
     decodeSync_on (Some (addon (spec_core prs str))) js
       [0x4B, 0x4F, 0x44, 0x41, 0x01, 0, 0, 0, 3,
        0, 0, 0, 2, 0x31, 0x30, 0, 0, 0, 1, 0x39, 0, 0, 0, 1, 0x62,
        0x11, 0, 0, 0, 3,
        0, 0, 0, 0, 0x05, 0x3F, 0xF8, 0, 0, 0, 0, 0, 0,
        0, 0, 0, 1, 0x01,
        0, 0, 0, 2, 0x10, 0, 0, 0, 2,
        0x04, 0, 0, 0, 0, 0, 0, 0, 2,
        0x06, 0, 0, 0, 2, 0x68, 0x69] None =
       Inr (JObject [(''9'', JNull), (''10'', JNumber 0x3FF8000000000000),
                     (''b'', JArray [JNumber 0x4000000000000000, JString ''hi''])]) \<and>
     veq (VObject [(''10'', VFloat 0x3FF8000000000000), (''9'', VNull),
                   (''b'', VArray [VInt 2, VString ''hi''])])
         (VObject [(''b'', VArray [VInt 2, VString ''hi'']),
                   (''10'', VFloat 0x3FF8000000000000), (''9'', VNull)]) \<and>
     veq (VObject [(''9'', VNull), (''10'', VFloat 0x3FF8000000000000),
                   (''b'', VArray [VInt 2, VString ''hi''])])
         (VObject [(''9'', VNull), (''10'', VFloat 0x3FF8000000000000),
                   (''b'', VArray [VInt 2, VString ''hi''])])"
proof (intro allI)
  fix prs str js
  let ?v = "VObject [(''b'', VArray [VInt 2, VString ''hi'']),
                     (''10'', VFloat 0x3FF8000000000000), (''9'', VNull)]"
  let ?h = "VObject [(''9'', VNull), (''10'', VFloat 0x3FF8000000000000),
                     (''b'', VArray [VInt 2, VString ''hi''])]"
  let ?c = "VObject [(''10'', VFloat 0x3FF8000000000000), (''9'', VNull),
                     (''b'', VArray [VInt 2, VString ''hi''])]"
  let ?r = "JObject [(''9'', JNull), (''10'', JNumber 0x3FF8000000000000),
                     (''b'', JArray [JNumber 0x4000000000000000, JString ''hi''])]"
  let ?bs = "[0x4B, 0x4F, 0x44, 0x41, 0x01, 0, 0, 0, 3,
        0, 0, 0, 2, 0x31, 0x30, 0, 0, 0, 1, 0x39, 0, 0, 0, 1, 0x62,
        0x11, 0, 0, 0, 3,
        0, 0, 0, 0, 0x05, 0x3F, 0xF8, 0, 0, 0, 0, 0, 0,
        0, 0, 0, 1, 0x01,
        0, 0, 0, 2, 0x10, 0, 0, 0, 2,
        0x04, 0, 0, 0, 0, 0, 0, 0, 2,
        0x06, 0, 0, 0, 2, 0x68, 0x69] :: byte list"
  have h1: "host_stable ?v" by (simp add: dbl_eval)
  have h2: "keys_unique ?v" by simp
  have h3: "plain_keys ?v" by (simp add: plain_key_def)
  have h4: "strings_valid ?v" by (simp add: valid_utf8_def)
  have h5: "lengths_fit ?v" by simp
  have n: "ValueToNapi ?v = ?r"
    by (simp add: native_eval dbl_eval)
  have n': "ValueToNapi ?c = ?r"
    by (simp add: native_eval dbl_eval)
  have rt: "NapiToValue ?r = ?h"
    by (simp add: dbl_eval)
  have e: "koda_encode ?h 256 = Inr ?bs"
    by (simp add: enc_defs dbl_eval less_char_def less_eq_char_def)
  have h6: "encode_on (Some (addon (spec_core prs str))) js (ValueToNapi ?v) None = Inr ?bs"
    using e unfolding n
    by (simp add: encode_on_spec_core NativeEncode_def rt opt_field_def size_option_def
        del: NapiToValue.simps)
  have h7: "within_decode_bounds ?v (size_option 256 (opt_field None d_maxDepth))
           (size_option 65536 (opt_field None maxDictionarySize))
           (size_option 1000000 (opt_field None maxStringLength))"
    by (simp add: within_decode_bounds_def build_dictionary_def max_list_def opt_field_def
        size_option_def less_char_def less_eq_char_def)
  have c: "canon ?v = ?c"
    by (simp add: isnan_def dbl_expo_def dbl_mant_def less_char_def less_eq_char_def)
  from binary_round_trip [OF h1 h2 h3 h4 h5 h6 h7]
  show "decodeSync_on (Some (addon (spec_core prs str))) js ?bs None = Inr ?r \<and>
     veq ?c ?v \<and> veq ?h ?h"
    unfolding c n n' rt .
qed

subsection \<open>Canonical encoding\<close>




end
